theory Spec2Isabelle
  imports Complex_Main "HOL-Library.Char_ord" "HOL-Library.List_Lexorder"
begin

section \<open>Values, series and tables\<close>

text \<open>
  A cell of a numeric column is a float. Finite floats are idealised as reals (no rounding,
  no overflow, one zero); the three special values the code tests for and produces are kept
  apart, with the arithmetic IEEE 754 gives them.
\<close>

datatype fval = Val real | NaN | PInf | NInf

datatype error = KeyError | ValueError | LinAlgError

definition ebind :: "error + 'a \<Rightarrow> ('a \<Rightarrow> error + 'b) \<Rightarrow> error + 'b" where
  "ebind m f = (case m of Inl e \<Rightarrow> Inl e | Inr x \<Rightarrow> f x)"

fun fneg :: "fval \<Rightarrow> fval" where
  "fneg (Val a) = Val (- a)"
| "fneg NaN = NaN"
| "fneg PInf = NInf"
| "fneg NInf = PInf"

fun fadd :: "fval \<Rightarrow> fval \<Rightarrow> fval" where
  "fadd (Val a) (Val b) = Val (a + b)"
| "fadd NaN _ = NaN"
| "fadd _ NaN = NaN"
| "fadd PInf NInf = NaN"
| "fadd NInf PInf = NaN"
| "fadd PInf _ = PInf"
| "fadd _ PInf = PInf"
| "fadd NInf _ = NInf"
| "fadd _ NInf = NInf"

definition fsub :: "fval \<Rightarrow> fval \<Rightarrow> fval" where
  "fsub a b = fadd a (fneg b)"

definition inf_of_sign :: "bool \<Rightarrow> fval" where
  "inf_of_sign pos = (if pos then PInf else NInf)"

fun fmul :: "fval \<Rightarrow> fval \<Rightarrow> fval" where
  "fmul (Val a) (Val b) = Val (a * b)"
| "fmul NaN _ = NaN"
| "fmul _ NaN = NaN"
| "fmul (Val a) PInf = (if a = 0 then NaN else inf_of_sign (0 < a))"
| "fmul (Val a) NInf = (if a = 0 then NaN else inf_of_sign (a < 0))"
| "fmul PInf (Val b) = (if b = 0 then NaN else inf_of_sign (0 < b))"
| "fmul NInf (Val b) = (if b = 0 then NaN else inf_of_sign (b < 0))"
| "fmul PInf PInf = PInf"
| "fmul NInf NInf = PInf"
| "fmul PInf NInf = NInf"
| "fmul NInf PInf = NInf"

fun fdiv :: "fval \<Rightarrow> fval \<Rightarrow> fval" where
  "fdiv (Val a) (Val b) =
     (if b = 0 then (if a = 0 then NaN else inf_of_sign (0 < a)) else Val (a / b))"
| "fdiv NaN _ = NaN"
| "fdiv _ NaN = NaN"
| "fdiv (Val a) _ = Val 0"
| "fdiv PInf (Val b) = inf_of_sign (0 \<le> b)"
| "fdiv NInf (Val b) = inf_of_sign (b < 0)"
| "fdiv PInf PInf = NaN"
| "fdiv PInf NInf = NaN"
| "fdiv NInf PInf = NaN"
| "fdiv NInf NInf = NaN"

fun fsqrt :: "fval \<Rightarrow> fval" where
  "fsqrt (Val a) = (if a < 0 then NaN else Val (sqrt a))"
| "fsqrt PInf = PInf"
| "fsqrt _ = NaN"

text \<open>The comparison \<open>a > b\<close>: false as soon as one side is NaN.\<close>

fun fgt :: "fval \<Rightarrow> fval \<Rightarrow> bool" where
  "fgt (Val a) (Val b) = (b < a)"
| "fgt NaN _ = False"
| "fgt _ NaN = False"
| "fgt PInf PInf = False"
| "fgt PInf _ = True"
| "fgt NInf _ = False"
| "fgt _ NInf = True"
| "fgt _ PInf = False"

text \<open>\<open>np.sqrt(vx**2 + vy**2)\<close> on one row.\<close>

definition speed_of :: "fval \<Rightarrow> fval \<Rightarrow> fval" where
  "speed_of a b = fsqrt (fadd (fmul a a) (fmul b b))"

subsection \<open>Series operations of pandas\<close>

text \<open>\<open>Series.diff()\<close>: the first row has no predecessor and is NaN.\<close>

fun diffs :: "fval \<Rightarrow> fval list \<Rightarrow> fval list" where
  "diffs prev [] = []"
| "diffs prev (x # xs) = fsub x prev # diffs x xs"

fun diff :: "fval list \<Rightarrow> fval list" where
  "diff [] = []"
| "diff (x # xs) = NaN # diffs x xs"

definition sdiv :: "fval list \<Rightarrow> fval list \<Rightarrow> fval list" where
  "sdiv xs ys = map2 fdiv xs ys"

definition replace_inf :: "fval list \<Rightarrow> fval list" where
  "replace_inf xs = map (\<lambda>v. if v = PInf \<or> v = NInf then NaN else v) xs"

text \<open>
  \<open>Series.interpolate(limit_direction="both")\<close> with the default linear method: the rows
  count as equally spaced; a run of \<open>k\<close> missing rows between the valid values \<open>p\<close> and
  \<open>v\<close> is filled on the line through them (\<open>np.interp\<close>: slope times offset plus \<open>p\<close>);
  a leading run takes the first valid value, a trailing run the last one; a series with no
  valid value stays as it is.
\<close>

definition lerp :: "fval \<Rightarrow> fval \<Rightarrow> nat \<Rightarrow> nat \<Rightarrow> fval" where
  "lerp p v gap j = fadd (fmul (fdiv (fsub v p) (Val (real gap))) (Val (real j))) p"

fun interp_go :: "fval option \<Rightarrow> nat \<Rightarrow> fval list \<Rightarrow> fval list" where
  "interp_go prev k [] =
     (case prev of None \<Rightarrow> replicate k NaN | Some p \<Rightarrow> replicate k p)"
| "interp_go prev k (v # vs) =
     (if v = NaN then interp_go prev (Suc k) vs
      else (case prev of None \<Rightarrow> replicate k v
            | Some p \<Rightarrow> map (lerp p v (Suc k)) [1..<Suc k])
           @ v # interp_go (Some v) 0 vs)"

definition interpolate :: "fval list \<Rightarrow> fval list" where
  "interpolate xs = interp_go None 0 xs"

fun ffill_go :: "fval \<Rightarrow> fval list \<Rightarrow> fval list" where
  "ffill_go prev [] = []"
| "ffill_go prev (v # vs) =
     (if v = NaN then prev # ffill_go prev vs else v # ffill_go v vs)"

definition ffill :: "fval list \<Rightarrow> fval list" where
  "ffill xs = ffill_go NaN xs"

definition bfill :: "fval list \<Rightarrow> fval list" where
  "bfill xs = rev (ffill (rev xs))"

text \<open>
  Boolean-mask selection \<open>s.loc[mask]\<close> and assignment \<open>s.loc[mask] = values\<close>; the
  assignment raises when the number of values is not the number of selected rows.
  \<open>s[:] = values\<close> is the assignment under the all-true mask.
\<close>

fun sel :: "bool list \<Rightarrow> 'a list \<Rightarrow> 'a list" where
  "sel (m # ms) (x # xs) = (if m then x # sel ms xs else sel ms xs)"
| "sel _ _ = []"

fun put :: "bool list \<Rightarrow> 'a list \<Rightarrow> 'a list \<Rightarrow> 'a list" where
  "put (m # ms) (x # xs) vs =
     (if m then (case vs of [] \<Rightarrow> x # xs | v # vs' \<Rightarrow> v # put ms xs vs')
      else x # put ms xs vs)"
| "put _ xs _ = xs"

definition assign_mask :: "bool list \<Rightarrow> fval list \<Rightarrow> fval list \<Rightarrow> error + fval list" where
  "assign_mask msk xs vs =
     (if length vs = length (sel msk xs) then Inr (put msk xs vs) else Inl ValueError)"

definition assign_all :: "fval list \<Rightarrow> fval list \<Rightarrow> error + fval list" where
  "assign_all xs vs = (if length vs = length xs then Inr vs else Inl ValueError)"

subsection \<open>Tables\<close>

text \<open>
  A DataFrame: the row labels and the columns in their order, each column a series with
  one cell per row.
\<close>

record table =
  index :: "int list"
  columns :: "(string \<times> fval list) list"

definition column_names :: "table \<Rightarrow> string list" where
  "column_names t = map fst (columns t)"

definition get_col :: "table \<Rightarrow> string \<Rightarrow> error + fval list" where
  "get_col t name =
     (case map_of (columns t) name of None \<Rightarrow> Inl KeyError | Some s \<Rightarrow> Inr s)"

text \<open>\<open>team[name] = s\<close>: overwrites the column in place, or appends a new one.\<close>

fun assign_col :: "string \<Rightarrow> fval list \<Rightarrow> (string \<times> fval list) list
                   \<Rightarrow> (string \<times> fval list) list" where
  "assign_col name s [] = [(name, s)]"
| "assign_col name s ((k, x) # cs) =
     (if k = name then (name, s) # cs else (k, x) # assign_col name s cs)"

definition set_col :: "table \<Rightarrow> string \<Rightarrow> fval list \<Rightarrow> table" where
  "set_col t name s = t\<lparr>columns := assign_col name s (columns t)\<rparr>"

section \<open>ColumnSanitizer: \<open>remove_player_velocities\<close>\<close>

text \<open>\<open>c.split('_')[-1]\<close>: what follows the last underscore, all of \<open>c\<close> without one.\<close>

definition last_part :: "string \<Rightarrow> string" where
  "last_part c = rev (takeWhile (\<lambda>ch. ch \<noteq> CHR ''_'') (rev c))"

definition is_derived :: "string \<Rightarrow> bool" where
  "is_derived c \<longleftrightarrow>
     last_part c \<in> set [''vx'', ''vy'', ''ax'', ''ay'', ''speed'', ''acceleration'']"

definition remove_player_velocities :: "table \<Rightarrow> table" where
  "remove_player_velocities team =
     (let cols = filter is_derived (column_names team)
      in if length cols > 0
         then team\<lparr>columns := filter (\<lambda>c. fst c \<notin> set cols) (columns team)\<rparr>
         else team)"

section \<open>SmoothingStrategy\<close>

subsection \<open>Savitzky-Golay: \<open>_savgol_safe\<close>\<close>

text \<open>
  \<open>scipy.signal.savgol_filter\<close> is a library function, not code of this repository; it is
  the parameter \<open>sgf\<close> of the model, which may raise. The series is first cleaned
  (infinities replaced, interpolated, filled backward then forward), then window and
  polynomial order are adjusted.
\<close>

type_synonym savgol = "fval list \<Rightarrow> int \<Rightarrow> int \<Rightarrow> error + fval list"

definition savgol_clean :: "fval list \<Rightarrow> fval list" where
  "savgol_clean series = ffill (bfill (interpolate (replace_inf series)))"

definition savgol_safe :: "savgol \<Rightarrow> fval list \<Rightarrow> int \<Rightarrow> int \<Rightarrow> error + fval list" where
  "savgol_safe sgf series win poly =
     (let s = savgol_clean series;
          n = int (length s);
          w = win
      in if w < 3 then Inr s
         else let w = (if w mod 2 = 0 then w + 1 else w);
                  w = (if w > n then (if n mod 2 = 1 then n else n - 1) else w)
              in if w < 3 then Inr s
                 else let p = poly;
                          p = (if p \<ge> w then max 1 (w - 1) else p)
                      in sgf s w p)"

subsection \<open>Moving average: \<open>np.convolve(..., mode='same')\<close>\<close>

text \<open>
  The full discrete convolution has \<open>n + m - 1\<close> entries; entry \<open>t\<close> sums the products
  \<open>a[j] * v[t - j]\<close> over the overlapping positions. Mode \<open>same\<close> swaps the arguments so
  that the first is the longer one, and returns the centred \<open>max n m\<close> entries of the full
  convolution. An empty argument raises.
\<close>

definition conv_full :: "fval list \<Rightarrow> fval list \<Rightarrow> fval list" where
  "conv_full a v =
     map (\<lambda>t. foldr fadd
                 (map (\<lambda>j. fmul (a ! j) (v ! (t - j)))
                      (filter (\<lambda>j. t - j < length v) [0..<min (Suc t) (length a)]))
                 (Val 0))
         [0..<length a + length v - 1]"

definition np_convolve_same :: "fval list \<Rightarrow> fval list \<Rightarrow> error + fval list" where
  "np_convolve_same a v =
     (if a = [] \<or> v = [] then Inl ValueError
      else let (a', v') = (if length v > length a then (v, a) else (a, v))
           in Inr (take (length a') (drop ((length v' - 1) div 2) (conv_full a' v'))))"

text \<open>\<open>np.ones(int(window)) / float(window)\<close>; a negative size raises.\<close>

definition ma_window :: "int \<Rightarrow> error + fval list" where
  "ma_window window =
     (if window < 0 then Inl ValueError
      else Inr (replicate (nat window) (fdiv (Val 1) (Val (real_of_int window)))))"

section \<open>VelocityEstimator: \<open>calc_player_velocities\<close>\<close>

text \<open>\<open>c.endswith(suf)\<close> and the player identifiers (\<open>np.unique\<close> sorts and deduplicates).\<close>

definition endswith :: "string \<Rightarrow> string \<Rightarrow> bool" where
  "endswith c suf \<longleftrightarrow> length suf \<le> length c \<and> drop (length c - length suf) c = suf"

definition is_position_col :: "string \<Rightarrow> bool" where
  "is_position_col c \<longleftrightarrow>
     take 4 c \<in> set [''Home'', ''Away''] \<and> (endswith c ''_x'' \<or> endswith c ''_y'')"

definition player_ids :: "string list \<Rightarrow> string list" where
  "player_ids cols =
     sort (remdups (map (\<lambda>c. take (length c - 2) c) (filter is_position_col cols)))"

text \<open>The first row label with \<open>Period == 2\<close>, if there is a Period column and such a row.\<close>

definition second_half_idx :: "table \<Rightarrow> int option" where
  "second_half_idx team =
     (case map_of (columns team) ''Period'' of
        None \<Rightarrow> None
      | Some period \<Rightarrow>
          (case sel (map (\<lambda>v. v = Val 2) period) (index team) of
             [] \<Rightarrow> None
           | b # _ \<Rightarrow> Some b))"

text \<open>
  Outlier rejection (\<open>if maxspeed and maxspeed > 0\<close>): rows whose raw speed exceeds the
  bound lose both components. \<open>maxspeed\<close> is \<open>None\<close> when absent.
\<close>

fun mask_nan :: "bool list \<Rightarrow> fval list \<Rightarrow> fval list" where
  "mask_nan (m # ms) (x # xs) = (if m then NaN else x) # mask_nan ms xs"
| "mask_nan _ xs = xs"

definition reject_outliers :: "real option \<Rightarrow> fval list \<Rightarrow> fval list
                                \<Rightarrow> fval list \<times> fval list" where
  "reject_outliers maxspeed vx vy =
     (case maxspeed of
        None \<Rightarrow> (vx, vy)
      | Some m \<Rightarrow>
          if m \<noteq> 0 \<and> m > 0
          then let raw_speed = map2 speed_of vx vy;
                   out = map (\<lambda>s. fgt s (Val m)) raw_speed
               in (mask_nan out vx, mask_nan out vy)
          else (vx, vy))"

definition gap_repair :: "fval list \<Rightarrow> fval list" where
  "gap_repair v = interpolate (replace_inf v)"

text \<open>
  The smoothing step on the two repaired components. With a half-time boundary \<open>b\<close> the
  masks are \<open>index <= b\<close> and \<open>index >= b\<close>. The Savitzky-Golay branch reads the second
  segment after the first has been written back; the moving-average branch reads all four
  segments first.
\<close>

definition smooth :: "savgol \<Rightarrow> int list \<Rightarrow> int option \<Rightarrow> bool \<Rightarrow> string \<Rightarrow> int \<Rightarrow> int
                      \<Rightarrow> fval list \<Rightarrow> fval list \<Rightarrow> error + (fval list \<times> fval list)" where
  "smooth sgf idx shi smoothing filter_kind window polyorder vx vy =
     (if smoothing then
        if filter_kind = ''Savitzky-Golay'' then
          (case shi of
             None \<Rightarrow>
               ebind (savgol_safe sgf vx window polyorder) (\<lambda>sx.
               ebind (assign_all vx sx) (\<lambda>vx.
               ebind (savgol_safe sgf vy window polyorder) (\<lambda>sy.
               ebind (assign_all vy sy) (\<lambda>vy. Inr (vx, vy)))))
           | Some b \<Rightarrow>
               let mask1 = map (\<lambda>l. l \<le> b) idx;
                   mask2 = map (\<lambda>l. l \<ge> b) idx
               in ebind (savgol_safe sgf (sel mask1 vx) window polyorder) (\<lambda>sx.
                  ebind (assign_mask mask1 vx sx) (\<lambda>vx.
                  ebind (savgol_safe sgf (sel mask1 vy) window polyorder) (\<lambda>sy.
                  ebind (assign_mask mask1 vy sy) (\<lambda>vy.
                  ebind (savgol_safe sgf (sel mask2 vx) window polyorder) (\<lambda>sx.
                  ebind (assign_mask mask2 vx sx) (\<lambda>vx.
                  ebind (savgol_safe sgf (sel mask2 vy) window polyorder) (\<lambda>sy.
                  ebind (assign_mask mask2 vy sy) (\<lambda>vy. Inr (vx, vy))))))))))
        else if filter_kind = ''moving average'' then
          ebind (ma_window window) (\<lambda>ma.
            (case shi of
               None \<Rightarrow>
                 let vx_vals = bfill (ffill vx);
                     vy_vals = bfill (ffill vy)
                 in ebind (np_convolve_same vx_vals ma) (\<lambda>cx.
                    ebind (assign_all vx cx) (\<lambda>vx.
                    ebind (np_convolve_same vy_vals ma) (\<lambda>cy.
                    ebind (assign_all vy cy) (\<lambda>vy. Inr (vx, vy)))))
             | Some b \<Rightarrow>
                 let mask1 = map (\<lambda>l. l \<le> b) idx;
                     mask2 = map (\<lambda>l. l \<ge> b) idx;
                     vx1 = bfill (ffill (sel mask1 vx));
                     vy1 = bfill (ffill (sel mask1 vy));
                     vx2 = bfill (ffill (sel mask2 vx));
                     vy2 = bfill (ffill (sel mask2 vy))
                 in ebind (np_convolve_same vx1 ma) (\<lambda>cx.
                    ebind (assign_mask mask1 vx cx) (\<lambda>vx.
                    ebind (np_convolve_same vy1 ma) (\<lambda>cy.
                    ebind (assign_mask mask1 vy cy) (\<lambda>vy.
                    ebind (np_convolve_same vx2 ma) (\<lambda>cx.
                    ebind (assign_mask mask2 vx cx) (\<lambda>vx.
                    ebind (np_convolve_same vy2 ma) (\<lambda>cy.
                    ebind (assign_mask mask2 vy cy) (\<lambda>vy. Inr (vx, vy)))))))))))
        else Inr (vx, vy)
      else Inr (vx, vy))"

text \<open>The two components of one player before they are written back.\<close>

definition player_velocities :: "savgol \<Rightarrow> int list \<Rightarrow> fval list \<Rightarrow> int option \<Rightarrow> bool
     \<Rightarrow> string \<Rightarrow> int \<Rightarrow> int \<Rightarrow> real option \<Rightarrow> fval list \<Rightarrow> fval list
     \<Rightarrow> error + (fval list \<times> fval list)" where
  "player_velocities sgf idx dt shi smoothing filter_kind window polyorder maxspeed xs ys =
     (let vx = sdiv (diff xs) dt;
          vy = sdiv (diff ys) dt;
          (vx, vy) = reject_outliers maxspeed vx vy;
          vx = gap_repair vx;
          vy = gap_repair vy
      in smooth sgf idx shi smoothing filter_kind window polyorder vx vy)"

text \<open>One iteration of the loop over the players, on the working table.\<close>

definition player_step :: "savgol \<Rightarrow> fval list \<Rightarrow> int option \<Rightarrow> bool \<Rightarrow> string \<Rightarrow> int
     \<Rightarrow> int \<Rightarrow> real option \<Rightarrow> table \<Rightarrow> string \<Rightarrow> error + table" where
  "player_step sgf dt shi smoothing filter_kind window polyorder maxspeed team player =
     ebind (get_col team (player @ ''_x'')) (\<lambda>xs.
     ebind (get_col team (player @ ''_y'')) (\<lambda>ys.
     ebind (player_velocities sgf (index team) dt shi smoothing filter_kind window polyorder
              maxspeed xs ys) (\<lambda>(vx, vy).
       Inr (set_col (set_col (set_col team (player @ ''_vx'') vx) (player @ ''_vy'') vy)
              (player @ ''_speed'') (map2 speed_of vx vy)))))"

text \<open>
  The loop stops at the first exception; the working table then holds what the earlier
  iterations wrote.
\<close>

fun players_loop :: "(table \<Rightarrow> string \<Rightarrow> error + table) \<Rightarrow> string list \<Rightarrow> table
                     \<Rightarrow> error option \<times> table" where
  "players_loop step [] team = (None, team)"
| "players_loop step (p # ps) team =
     (case step team p of
        Inl e \<Rightarrow> (Some e, team)
      | Inr team' \<Rightarrow> players_loop step ps team')"

text \<open>Everything after the first line of the function, on the sanitized working table.\<close>

definition calc_body :: "savgol \<Rightarrow> table \<Rightarrow> bool \<Rightarrow> string \<Rightarrow> int \<Rightarrow> int \<Rightarrow> real option
                         \<Rightarrow> error option \<times> table" where
  "calc_body sgf team smoothing filter_kind window polyorder maxspeed =
     (let ids = player_ids (column_names team)
      in case get_col team ''Time [s]'' of
           Inl e \<Rightarrow> (Some e, team)
         | Inr time \<Rightarrow>
             let dt = diff time;
                 shi = second_half_idx team
             in players_loop
                  (player_step sgf dt shi smoothing filter_kind window polyorder maxspeed)
                  ids team)"

text \<open>The function as a map from the table passed in to the table returned.\<close>

definition calc_player_velocities :: "savgol \<Rightarrow> table \<Rightarrow> bool \<Rightarrow> string \<Rightarrow> int \<Rightarrow> int
                                      \<Rightarrow> real option \<Rightarrow> error + table" where
  "calc_player_velocities sgf team smoothing filter_kind window polyorder maxspeed =
     (case calc_body sgf (remove_player_velocities team) smoothing filter_kind window polyorder
             maxspeed of
        (None, team') \<Rightarrow> Inr team'
      | (Some e, _) \<Rightarrow> Inl e)"

subsection \<open>Tables as objects\<close>

text \<open>
  DataFrames are objects: a variable holds a reference, \<open>team.drop(columns=cols)\<close> makes a
  new object, and \<open>team[name] = s\<close> changes the object \<open>team\<close> refers to. The heap is the
  list of objects made so far; a reference is a position in it.
\<close>

type_synonym heap = "table list"

definition remove_player_velocities_ref :: "heap \<Rightarrow> nat \<Rightarrow> nat \<times> heap" where
  "remove_player_velocities_ref h r =
     (let team = h ! r;
          cols = filter is_derived (column_names team)
      in if length cols > 0
         then (length h,
               h @ [team\<lparr>columns := filter (\<lambda>c. fst c \<notin> set cols) (columns team)\<rparr>])
         else (r, h))"

definition calc_player_velocities_ref :: "savgol \<Rightarrow> heap \<Rightarrow> nat \<Rightarrow> bool \<Rightarrow> string \<Rightarrow> int
     \<Rightarrow> int \<Rightarrow> real option \<Rightarrow> (error + nat) \<times> heap" where
  "calc_player_velocities_ref sgf h r smoothing filter_kind window polyorder maxspeed =
     (let (r', h') = remove_player_velocities_ref h r;
          (res, team') = calc_body sgf (h' ! r') smoothing filter_kind window polyorder maxspeed
      in ((case res of None \<Rightarrow> Inr r' | Some e \<Rightarrow> Inl e), h'[r' := team']))"

section \<open>The Savitzky-Golay adjustments in the specification's words\<close>

text \<open>
  The strategy's input as the specification describes it: a series with no missing and no
  infinite value.
\<close>

definition gap_free :: "fval list \<Rightarrow> bool" where
  "gap_free s \<longleftrightarrow> list_all (\<lambda>v. v \<noteq> NaN \<and> v \<noteq> PInf \<and> v \<noteq> NInf) s"




text \<open>
  What the library filter is relied on for, and no more: on a series with no missing and no
  infinite value, with an odd window no longer than the series and a polynomial order
  below the window, it returns one value per sample. Nothing is assumed about a series
  with a missing sample, on which the library's edge fit raises.
\<close>

definition savgol_contract :: "savgol \<Rightarrow> bool" where
  "savgol_contract sgf \<longleftrightarrow>
     (\<forall>x w p. gap_free x \<and> odd w \<and> 0 < w \<and> w \<le> int (length x) \<and> 0 \<le> p \<and> p < w
        \<longrightarrow> (\<exists>y. sgf x w p = Inr y \<and> length y = length x))"

section \<open>Example inputs\<close>

text \<open>
  A stand-in for the library filter that returns the series it is given, and a five-row
  table of one player with a half-time boundary at row 2 and a stale derived column.
\<close>

definition savgol_stub :: savgol where
  "savgol_stub s w p = Inr s"

definition demo_table :: table where
  "demo_table = \<lparr>index = [0, 1, 2, 3, 4],
     columns = [(''Time [s]'', [Val 0, Val 1, Val 2, Val 3, Val 4]),
                (''Period'', [Val 1, Val 1, Val 2, Val 2, Val 2]),
                (''Home_1_x'', [Val 0, Val 1, Val 3, Val 4, Val 4]),
                (''Home_1_y'', [Val 0, Val 0, Val 0, Val 0, Val 0]),
                (''Home_1_vx'', [Val 7, Val 7, Val 7, Val 7, Val 7])]\<rparr>"



text \<open>\<open>v \<approx> r\<close>: a finite value within \<open>10\<^sup>-\<^sup>6\<close> of \<open>r\<close>.\<close>

definition approx :: "fval \<Rightarrow> real \<Rightarrow> bool" where
  "approx v r = (case v of Val a \<Rightarrow> \<bar>a - r\<bar> \<le> 1 / 1000000 | _ \<Rightarrow> False)"

text \<open>A three-row table of one player, shorter than the default window.\<close>

definition short_table :: table where
  "short_table = \<lparr>index = [0, 1, 2],
     columns = [(''Time [s]'', [Val 0, Val (1/25), Val (2/25)]),
                (''Home_1_x'', [Val 0, Val (1/10), Val (2/10)]),
                (''Home_1_y'', [Val 0, Val 0, Val 0])]\<rparr>"

text \<open>
  A player at rest, but for the position \<open>s\<close> at row 1, the row before the half-time
  boundary (row 2).
\<close>

definition spike_table :: "real \<Rightarrow> table" where
  "spike_table s = \<lparr>index = [0, 1, 2, 3, 4],
     columns = [(''Time [s]'', [Val 0, Val 1, Val 2, Val 3, Val 4]),
                (''Period'', [Val 1, Val 1, Val 2, Val 2, Val 2]),
                (''Home_1_x'', [Val 0, Val s, Val 0, Val 0, Val 0]),
                (''Home_1_y'', [Val 0, Val 0, Val 0, Val 0, Val 0])]\<rparr>"

text \<open>One cell of a column of the table the estimator returned.\<close>

definition cell :: "error + table \<Rightarrow> string \<Rightarrow> nat \<Rightarrow> fval option" where
  "cell r c i = (case r of Inl e \<Rightarrow> None
                 | Inr t \<Rightarrow> map_option (\<lambda>s. s ! i) (map_of (columns t) c))"

text \<open>A table with ball positions only.\<close>

definition ball_table :: table where
  "ball_table = \<lparr>index = [0, 1],
     columns = [(''Time [s]'', [Val 0, Val 1]),
                (''ball_x'', [Val 0, Val 1]),
                (''ball_y'', [Val 0, Val 0])]\<rparr>"

text \<open>
  The constant-velocity scenario: ten rows 0.04 s apart, \<open>x\<close> growing by 1 per row,
  \<open>y\<close> constant.
\<close>

definition constant_velocity_table :: table where
  "constant_velocity_table = \<lparr>index = [0, 1, 2, 3, 4, 5, 6, 7, 8, 9],
     columns = [(''Time [s]'', [Val 0, Val (1/25), Val (2/25), Val (3/25), Val (4/25),
                               Val (1/5), Val (6/25), Val (7/25), Val (8/25), Val (9/25)]),
                (''Home_1_x'', [Val 0, Val 1, Val 2, Val 3, Val 4,
                               Val 5, Val 6, Val 7, Val 8, Val 9]),
                (''Home_1_y'', [Val 5, Val 5, Val 5, Val 5, Val 5,
                               Val 5, Val 5, Val 5, Val 5, Val 5])]\<rparr>"

text \<open>One column of the table the estimator returned.\<close>

definition column_of :: "error + table \<Rightarrow> string \<Rightarrow> fval list option" where
  "column_of r c = (case r of Inl e \<Rightarrow> None | Inr t \<Rightarrow> map_of (columns t) c)"

text \<open>The derived columns written for a list of players.\<close>

definition derived_names :: "string list \<Rightarrow> string set" where
  "derived_names ids = (\<Union>q \<in> set ids. {q @ ''_vx'', q @ ''_vy'', q @ ''_speed''})"

text \<open>
  The square root has no executable equation: under evaluation it stays a symbolic term.
\<close>

declare root_def [code del]

section \<open>Basic facts\<close>

lemma ebind_simps [simp]:
  "ebind (Inl e) f = Inl e" "ebind (Inr x) f = f x"
  by (simp_all add: ebind_def)

lemma ebind_eq_Inr: "ebind m f = Inr y \<longleftrightarrow> (\<exists>x. m = Inr x \<and> f x = Inr y)"
  by (cases m) simp_all

lemma length_diffs [simp]: "length (diffs p xs) = length xs"
  by (induction xs arbitrary: p) auto

lemma length_diff [simp]: "length (diff xs) = length xs"
  by (cases xs) auto

lemma length_sdiv [simp]: "length (sdiv xs ys) = min (length xs) (length ys)"
  by (simp add: sdiv_def)

lemma length_replace_inf [simp]: "length (replace_inf xs) = length xs"
  by (simp add: replace_inf_def)

lemma length_interp_go [simp]: "length (interp_go prev k xs) = k + length xs"
  by (induction xs arbitrary: prev k) (auto split: option.splits)

lemma length_interpolate [simp]: "length (interpolate xs) = length xs"
  by (simp add: interpolate_def)

lemma length_gap_repair [simp]: "length (gap_repair xs) = length xs"
  by (simp add: gap_repair_def)

lemma length_ffill_go [simp]: "length (ffill_go p xs) = length xs"
  by (induction xs arbitrary: p) auto

lemma length_ffill [simp]: "length (ffill xs) = length xs"
  by (simp add: ffill_def)

lemma length_bfill [simp]: "length (bfill xs) = length xs"
  by (simp add: bfill_def)

lemma length_mask_nan [simp]: "length (mask_nan ms xs) = length xs"
  by (induction ms xs rule: mask_nan.induct) auto

lemma mask_nan_nth:
  "i < length ms \<Longrightarrow> i < length xs \<Longrightarrow> mask_nan ms xs ! i = (if ms ! i then NaN else xs ! i)"
proof (induction ms xs arbitrary: i rule: mask_nan.induct)
  case (1 m ms x xs)
  then show ?case by (cases i) auto
qed auto

lemma length_reject_outliers [simp]:
  "length (fst (reject_outliers m vx vy)) = length vx"
  "length (snd (reject_outliers m vx vy)) = length vy"
  by (auto simp: reject_outliers_def Let_def split: option.splits)

lemma length_conv_full [simp]: "length (conv_full a v) = length a + length v - 1"
  by (simp add: conv_full_def)

lemma np_convolve_same_length:
  assumes "a \<noteq> []" "v \<noteq> []"
  shows "\<exists>c. np_convolve_same a v = Inr c \<and> length c = max (length a) (length v)"
proof -
  have *: "min (n + m - Suc ((m - Suc 0) div 2)) n = n" if "0 < n" "0 < m" for n m :: nat
    using that by arith
  have **: "min (m + n - Suc ((m - Suc 0) div 2)) n = n" if "0 < n" "0 < m" for n m :: nat
    using that by arith
  have "0 < length a" "0 < length v" using assms by auto
  then show ?thesis
    using assms by (auto simp: np_convolve_same_def Let_def * **)
qed

lemma np_convolve_same_empty: "a = [] \<or> v = [] \<Longrightarrow> np_convolve_same a v = Inl ValueError"
  by (auto simp: np_convolve_same_def)

section \<open>The sanitizer\<close>

lemma remove_columns:
  "columns (remove_player_velocities t) = filter (\<lambda>c. \<not> is_derived (fst c)) (columns t)"
proof (cases "filter is_derived (column_names t) = []")
  case True
  then have "\<forall>c \<in> set (columns t). \<not> is_derived (fst c)"
    by (auto simp: column_names_def filter_empty_conv)
  then have "filter (\<lambda>c. \<not> is_derived (fst c)) (columns t) = columns t"
    by (simp add: filter_id_conv)
  with True show ?thesis by (simp add: remove_player_velocities_def)
next
  case False
  have "filter (\<lambda>c. fst c \<notin> set (filter is_derived (column_names t))) (columns t)
        = filter (\<lambda>c. \<not> is_derived (fst c)) (columns t)"
    by (rule filter_cong) (auto simp: column_names_def)
  with False show ?thesis by (simp add: remove_player_velocities_def Let_def)
qed

lemma remove_index: "index (remove_player_velocities t) = index t"
  by (simp add: remove_player_velocities_def Let_def)

lemma remove_idem:
  "remove_player_velocities (remove_player_velocities t) = remove_player_velocities t"
  by (rule table.equality) (simp_all add: remove_columns remove_index)

lemma is_derived_suffix [simp]:
  "is_derived (p @ ''_vx'')" "is_derived (p @ ''_vy'')" "is_derived (p @ ''_speed'')"
  by (simp_all add: is_derived_def last_part_def)

lemma filter_assign_col:
  "is_derived name \<Longrightarrow>
   filter (\<lambda>c. \<not> is_derived (fst c)) (assign_col name s cs)
     = filter (\<lambda>c. \<not> is_derived (fst c)) cs"
  by (induction cs) auto

text \<open>The loop only adds or overwrites derived columns and leaves the row labels alone.\<close>

lemma player_step_frame:
  assumes "player_step sgf dt shi sm fk w p m team player = Inr team'"
  shows "filter (\<lambda>c. \<not> is_derived (fst c)) (columns team')
           = filter (\<lambda>c. \<not> is_derived (fst c)) (columns team)
         \<and> index team' = index team"
  using assms
  by (auto simp: player_step_def ebind_eq_Inr set_col_def filter_assign_col)

lemma players_loop_frame:
  "players_loop (player_step sgf dt shi sm fk w p m) ids team = (r, team') \<Longrightarrow>
   filter (\<lambda>c. \<not> is_derived (fst c)) (columns team')
     = filter (\<lambda>c. \<not> is_derived (fst c)) (columns team)
   \<and> index team' = index team"
proof (induction ids arbitrary: team)
  case Nil
  then show ?case by simp
next
  case (Cons a ids)
  show ?case
  proof (cases "player_step sgf dt shi sm fk w p m team a")
    case (Inl e)
    with Cons.prems show ?thesis by simp
  next
    case (Inr t1)
    with Cons.prems
    have "players_loop (player_step sgf dt shi sm fk w p m) ids t1 = (r, team')"
      by simp
    from Cons.IH[OF this] player_step_frame[OF Inr] show ?thesis by simp
  qed
qed

lemma calc_body_frame:
  "calc_body sgf team sm fk w p m = (r, team') \<Longrightarrow>
   filter (\<lambda>c. \<not> is_derived (fst c)) (columns team')
     = filter (\<lambda>c. \<not> is_derived (fst c)) (columns team)
   \<and> index team' = index team"
  by (auto simp: calc_body_def Let_def split: sum.splits dest: players_loop_frame)

lemma calc_remove_result:
  assumes "calc_player_velocities sgf team sm fk w p m = Inr team'"
  shows "remove_player_velocities team' = remove_player_velocities team"
proof -
  from assms obtain r
    where b: "calc_body sgf (remove_player_velocities team) sm fk w p m = (r, team')"
    by (auto simp: calc_player_velocities_def split: prod.splits option.splits)
  from calc_body_frame[OF b] show ?thesis
    by (intro table.equality) (simp_all add: remove_columns remove_index)
qed

lemma estimator_idem:
  assumes "calc_player_velocities sgf team sm fk w p m = Inr team'"
  shows "calc_player_velocities sgf team' sm fk w p m = Inr team'"
  using assms calc_remove_result[OF assms] by (simp add: calc_player_velocities_def)

text \<open>
  C8. Sanitizing twice is sanitizing once, and a second run of the estimator on the table
  the first run returned, with the same parameters, returns that table again.
\<close>

theorem sanitizer_and_estimator_idempotent:
  "remove_player_velocities (remove_player_velocities team) = remove_player_velocities team
   \<and> (calc_player_velocities sgf team sm fk w p m = Inr team'
        \<longrightarrow> calc_player_velocities sgf team' sm fk w p m = Inr team')"
  using remove_idem estimator_idem by blast

lemma demo_moving_average_returns:
  "(case calc_player_velocities savgol_stub demo_table True ''moving average'' 3 1 None of
      Inl e \<Rightarrow> False | Inr t \<Rightarrow> True)"
  by code_simp

theorem sanitizer_and_estimator_idempotent_witness:
  "(case calc_player_velocities savgol_stub demo_table True ''moving average'' 3 1 None of
      Inl e \<Rightarrow> False
    | Inr t' \<Rightarrow>
        calc_player_velocities savgol_stub t' True ''moving average'' 3 1 None = Inr t')"
proof -
  from demo_moving_average_returns obtain t'
    where t: "calc_player_velocities savgol_stub demo_table True ''moving average'' 3 1 None
              = Inr t'"
    by (auto split: sum.splits)
  from sanitizer_and_estimator_idempotent
         [of demo_table savgol_stub True "''moving average''" 3 1 None t'] t
  show ?thesis by simp
qed

section \<open>Unknown filter kinds\<close>

lemma smooth_unknown:
  "fk \<noteq> ''Savitzky-Golay'' \<Longrightarrow> fk \<noteq> ''moving average'' \<Longrightarrow>
   smooth sgf idx shi True fk w p vx vy = Inr (vx, vy)"
  by (simp add: smooth_def)

lemma smooth_disabled: "smooth sgf idx shi False fk w p vx vy = Inr (vx, vy)"
  by (simp add: smooth_def)

lemma calc_unknown:
  assumes "fk \<noteq> ''Savitzky-Golay''" "fk \<noteq> ''moving average''"
  shows "calc_player_velocities sgf team True fk w p m
         = calc_player_velocities sgf team False fk w p m"
proof -
  have "player_step sgf dt shi True fk w p m = player_step sgf dt shi False fk w p m"
    for dt shi
    by (intro ext)
       (simp add: player_step_def player_velocities_def smooth_unknown[OF assms]
          smooth_disabled)
  then have "calc_body sgf t True fk w p m = calc_body sgf t False fk w p m" for t
    by (cases "get_col t ''Time [s]''") (simp_all add: calc_body_def Let_def)
  then show ?thesis by (simp add: calc_player_velocities_def)
qed

text \<open>
  C9. With smoothing enabled and a filter kind that is neither \<open>'Savitzky-Golay'\<close> nor
  \<open>'moving average'\<close>, the smoothing step raises nothing and hands back the two components
  as they are after outlier rejection and gap repair; the whole estimator returns what it
  returns with smoothing disabled.
\<close>

theorem unknown_filter_kind_skips_smoothing:
  assumes "fk \<noteq> ''Savitzky-Golay''" and "fk \<noteq> ''moving average''"
  shows "smooth sgf idx shi True fk w p vx vy = Inr (vx, vy)
         \<and> player_velocities sgf idx dt shi True fk w p m xs ys
             = Inr (gap_repair (fst (reject_outliers m (sdiv (diff xs) dt) (sdiv (diff ys) dt))),
                    gap_repair (snd (reject_outliers m (sdiv (diff xs) dt) (sdiv (diff ys) dt))))
         \<and> calc_player_velocities sgf team True fk w p m
             = calc_player_velocities sgf team False fk w p m"
  using assms
  by (simp add: smooth_unknown calc_unknown player_velocities_def Let_def split_beta)

lemma demo_median_returns:
  "(case calc_player_velocities savgol_stub demo_table False ''median'' 7 1 None of
      Inl e \<Rightarrow> False | Inr t \<Rightarrow> True)"
  by code_simp

theorem unknown_filter_kind_skips_smoothing_witness:
  "''median'' \<noteq> ''Savitzky-Golay'' \<and> ''median'' \<noteq> ''moving average''
   \<and> calc_player_velocities savgol_stub demo_table True ''median'' 7 1 None
       = calc_player_velocities savgol_stub demo_table False ''median'' 7 1 None
   \<and> (case calc_player_velocities savgol_stub demo_table True ''median'' 7 1 None of
         Inl e \<Rightarrow> False | Inr t \<Rightarrow> True)"
  using unknown_filter_kind_skips_smoothing
          [of "''median''" savgol_stub "[]" None 7 1 "[]" "[]" "[]" None "[]" "[]" demo_table]
        demo_median_returns
  by simp

section \<open>Outlier rejection\<close>

lemma reject_outliers_nth:
  assumes "0 < m" "i < length vx" "i < length vy"
  shows "fst (reject_outliers (Some m) vx vy) ! i
           = (if fgt (speed_of (vx ! i) (vy ! i)) (Val m) then NaN else vx ! i)"
    and "snd (reject_outliers (Some m) vx vy) ! i
           = (if fgt (speed_of (vx ! i) (vy ! i)) (Val m) then NaN else vy ! i)"
  using assms by (simp_all add: reject_outliers_def Let_def mask_nan_nth)

lemma reject_outliers_disabled:
  "reject_outliers None vx vy = (vx, vy)" "m \<le> 0 \<Longrightarrow> reject_outliers (Some m) vx vy = (vx, vy)"
  by (simp_all add: reject_outliers_def)

lemma sqrt_gt: "0 \<le> m \<Longrightarrow> m * m < x \<Longrightarrow> m < sqrt x"
  by (metis power2_eq_square real_less_rsqrt)

lemma speed_of_finite: "speed_of (Val a) (Val b) = Val (sqrt (a\<^sup>2 + b\<^sup>2))"
proof -
  have "\<not> a * a + b * b < 0" by (simp add: not_less)
  then show ?thesis by (simp add: speed_of_def power2_eq_square)
qed

text \<open>
  C7. With a positive \<open>max_speed\<close>, a row whose raw speed \<open>sqrt (vx\<^sup>2 + vy\<^sup>2)\<close> exceeds it
  loses both components, and a row whose raw speed does not exceed it keeps both; the
  speed compared is that square root, also when a component is infinite or missing; an
  absent or zero \<open>max_speed\<close> keeps every raw value; and rejection comes first: gap repair
  and smoothing work on its output.
\<close>

theorem outliers_rejected_together:
  "(0 < m \<and> i < length vx \<and> i < length vy \<and> vx ! i = Val a \<and> vy ! i = Val b
      \<and> m < sqrt (a\<^sup>2 + b\<^sup>2)
      \<longrightarrow> fst (reject_outliers (Some m) vx vy) ! i = NaN
          \<and> snd (reject_outliers (Some m) vx vy) ! i = NaN)
   \<and> (0 < m \<and> i < length vx \<and> i < length vy \<and> vx ! i = Val a \<and> vy ! i = Val b
      \<and> sqrt (a\<^sup>2 + b\<^sup>2) \<le> m
      \<longrightarrow> fst (reject_outliers (Some m) vx vy) ! i = Val a
          \<and> snd (reject_outliers (Some m) vx vy) ! i = Val b)
   \<and> speed_of (Val a) (Val b) = Val (sqrt (a\<^sup>2 + b\<^sup>2))
   \<and> (0 < m \<and> i < length vx \<and> i < length vy \<and> fgt (speed_of (vx ! i) (vy ! i)) (Val m)
      \<longrightarrow> fst (reject_outliers (Some m) vx vy) ! i = NaN
          \<and> snd (reject_outliers (Some m) vx vy) ! i = NaN)
   \<and> reject_outliers None vx vy = (vx, vy)
   \<and> reject_outliers (Some 0) vx vy = (vx, vy)
   \<and> player_velocities sgf idx dt shi sm fk w p maxspeed xs ys
       = smooth sgf idx shi sm fk w p
           (gap_repair (fst (reject_outliers maxspeed (sdiv (diff xs) dt) (sdiv (diff ys) dt))))
           (gap_repair (snd (reject_outliers maxspeed (sdiv (diff xs) dt) (sdiv (diff ys) dt))))"
proof (intro conjI impI)
  assume h: "0 < m \<and> i < length vx \<and> i < length vy \<and> vx ! i = Val a \<and> vy ! i = Val b
      \<and> m < sqrt (a\<^sup>2 + b\<^sup>2)"
  then show "fst (reject_outliers (Some m) vx vy) ! i = NaN"
    and "snd (reject_outliers (Some m) vx vy) ! i = NaN"
    by (simp_all add: reject_outliers_nth speed_of_finite)
next
  assume h: "0 < m \<and> i < length vx \<and> i < length vy \<and> vx ! i = Val a \<and> vy ! i = Val b
      \<and> sqrt (a\<^sup>2 + b\<^sup>2) \<le> m"
  then show "fst (reject_outliers (Some m) vx vy) ! i = Val a"
    and "snd (reject_outliers (Some m) vx vy) ! i = Val b"
    by (simp_all add: reject_outliers_nth speed_of_finite)
next
  show "speed_of (Val a) (Val b) = Val (sqrt (a\<^sup>2 + b\<^sup>2))" by (rule speed_of_finite)
next
  assume h: "0 < m \<and> i < length vx \<and> i < length vy
      \<and> fgt (speed_of (vx ! i) (vy ! i)) (Val m)"
  then show "fst (reject_outliers (Some m) vx vy) ! i = NaN"
    and "snd (reject_outliers (Some m) vx vy) ! i = NaN"
    by (simp_all add: reject_outliers_nth)
next
  show "reject_outliers None vx vy = (vx, vy)" "reject_outliers (Some 0) vx vy = (vx, vy)"
    by (simp_all add: reject_outliers_disabled)
next
  show "player_velocities sgf idx dt shi sm fk w p maxspeed xs ys
       = smooth sgf idx shi sm fk w p
           (gap_repair (fst (reject_outliers maxspeed (sdiv (diff xs) dt) (sdiv (diff ys) dt))))
           (gap_repair (snd (reject_outliers maxspeed (sdiv (diff xs) dt) (sdiv (diff ys) dt))))"
    by (simp add: player_velocities_def split_beta Let_def)
qed

text \<open>
  A row with \<open>vx = 3\<close> and \<open>vy = 4\<close> against \<open>max_speed = 4.5\<close>: neither component
  exceeds the bound, the speed 5 does, and both are rejected; the row with speed
  \<open>sqrt 2\<close> is kept.
\<close>

theorem outliers_rejected_together_witness:
  "(0::real) < 9 / 2 \<and> (0::nat) < length [Val 3, Val 1] \<and> 0 < length [Val 4, Val 1]
   \<and> [Val 3, Val 1] ! 0 = Val 3 \<and> [Val 4, Val 1] ! 0 = Val 4
   \<and> 9 / 2 < sqrt (3\<^sup>2 + 4\<^sup>2) \<and> sqrt (1\<^sup>2 + 1\<^sup>2) \<le> 9 / 2
   \<and> fst (reject_outliers (Some (9 / 2)) [Val 3, Val 1] [Val 4, Val 1]) ! 0 = NaN
   \<and> snd (reject_outliers (Some (9 / 2)) [Val 3, Val 1] [Val 4, Val 1]) ! 0 = NaN
   \<and> fst (reject_outliers (Some (9 / 2)) [Val 3, Val 1] [Val 4, Val 1]) ! 1 = Val 1
   \<and> snd (reject_outliers (Some (9 / 2)) [Val 3, Val 1] [Val 4, Val 1]) ! 1 = Val 1"
proof -
  have "sqrt 25 = 5" by (rule real_sqrt_unique) simp_all
  then have a: "(9::real) / 2 < sqrt (3\<^sup>2 + 4\<^sup>2)" by simp
  have b: "sqrt (1\<^sup>2 + 1\<^sup>2) \<le> (9::real) / 2"
    by (rule real_le_lsqrt) (simp_all add: power2_eq_square)
  from a outliers_rejected_together[of "9 / 2" 0 "[Val 3, Val 1]" "[Val 4, Val 1]" 3 4]
  have r0: "fst (reject_outliers (Some (9 / 2)) [Val 3, Val 1] [Val 4, Val 1]) ! 0 = NaN"
           "snd (reject_outliers (Some (9 / 2)) [Val 3, Val 1] [Val 4, Val 1]) ! 0 = NaN"
    by simp_all
  from b outliers_rejected_together[of "9 / 2" 1 "[Val 3, Val 1]" "[Val 4, Val 1]" 1 1]
  have r1: "fst (reject_outliers (Some (9 / 2)) [Val 3, Val 1] [Val 4, Val 1]) ! 1 = Val 1"
           "snd (reject_outliers (Some (9 / 2)) [Val 3, Val 1] [Val 4, Val 1]) ! 1 = Val 1"
    by simp_all
  from a b r0 r1 show ?thesis by simp
qed

section \<open>The adaptive Savitzky-Golay strategy\<close>















lemma interp_go_all_missing:
  "\<forall>v \<in> set xs. v = NaN \<Longrightarrow> interp_go None k xs = replicate (k + length xs) NaN"
  by (induction xs arbitrary: k) (auto simp: replicate_app_Cons_same)

lemma ffill_go_all_missing: "\<forall>v \<in> set xs. v = NaN \<Longrightarrow> ffill_go NaN xs = xs"
  by (induction xs) auto

lemma savgol_clean_all_missing:
  assumes "list_all (\<lambda>a. a = NaN) s"
  shows "savgol_clean s = s"
proof -
  from assms have n: "\<forall>v \<in> set s. v = NaN" by (simp add: list_all_iff)
  then have s: "s = replicate (length s) NaN"
    by (simp add: replicate_length_same)
  have r: "replace_inf s = s" unfolding replace_inf_def by (rule map_idI) (use n in auto)
  have i: "interpolate s = s"
    using interp_go_all_missing[OF n, of 0] s by (simp add: interpolate_def)
  have n': "\<forall>v \<in> set (rev s). v = NaN" using n by simp
  show ?thesis
    by (simp add: savgol_clean_def r i bfill_def ffill_def ffill_go_all_missing[OF n']
          ffill_go_all_missing[OF n])
qed



lemma savgol_stub_contract: "savgol_contract savgol_stub"
  by (simp add: savgol_contract_def savgol_stub_def)






section \<open>The moving-average strategy\<close>

lemma smooth_ma_single_fails:
  assumes "int (length vx) < w"
  shows "smooth sgf idx None True ''moving average'' w p vx vy = Inl ValueError"
proof (cases "vx = []")
  case True
  then show ?thesis using assms
    by (simp add: smooth_def ma_window_def Let_def np_convolve_same_empty bfill_def ffill_def)
next
  case False
  from assms have w: "0 < w" "nat w > length vx" by auto
  let ?ma = "replicate (nat w) (fdiv (Val 1) (Val (real_of_int w)))"
  have ma: "ma_window w = Inr ?ma" using w by (simp add: ma_window_def)
  have "bfill (ffill vx) \<noteq> []" using False by (metis length_bfill length_ffill length_0_conv)
  moreover have "?ma \<noteq> []" using w by simp
  ultimately obtain c where c: "np_convolve_same (bfill (ffill vx)) ?ma = Inr c"
      "length c = max (length vx) (nat w)"
    using np_convolve_same_length[of "bfill (ffill vx)" ?ma] by auto
  then have "assign_all vx c = Inl ValueError" using w by (simp add: assign_all_def)
  with ma c show ?thesis by (simp add: smooth_def Let_def)
qed

lemma short_table_facts:
  "remove_player_velocities short_table = short_table"
  "player_ids (column_names short_table) = [''Home_1'']"
  "second_half_idx short_table = None"
  "get_col short_table ''Time [s]'' = Inr [Val 0, Val (1/25), Val (2/25)]"
  "get_col short_table ''Home_1_x'' = Inr [Val 0, Val (1/10), Val (2/10)]"
  "get_col short_table ''Home_1_y'' = Inr [Val 0, Val 0, Val 0]"
  by code_simp+

text \<open>
  C1. The moving-average strategy is not total: on the three-row table, with the default
  window 7, \<open>np.convolve(..., mode='same')\<close> returns as many values as the longer argument
  has, seven, and writing them back into the three rows raises.
\<close>

theorem moving_average_window_exceeding_segment_raises:
  "calc_player_velocities savgol_stub short_table True ''moving average'' 7 1 (Some 12)
   = Inl ValueError"
  by (simp add: calc_player_velocities_def calc_body_def short_table_facts player_step_def
        player_velocities_def split_beta smooth_ma_single_fails)

section \<open>The two segments\<close>

text \<open>With increasing row labels the two masks are a prefix and a suffix of the rows.\<close>

lemma nth_two_replicates:
  "i < a + c \<Longrightarrow> (replicate a x @ replicate c y) ! i = (if i < a then x else y)"
  by (simp add: nth_append)

lemma mask1_sorted:
  assumes "sorted_wrt (<) (idx :: int list)" "k < length idx"
  shows "map (\<lambda>l. l \<le> idx ! k) idx = replicate (Suc k) True @ replicate (length idx - Suc k) False"
proof (rule nth_equalityI)
  show "length (map (\<lambda>l. l \<le> idx ! k) idx)
        = length (replicate (Suc k) True @ replicate (length idx - Suc k) False)"
    using assms(2) by simp
next
  fix i assume "i < length (map (\<lambda>l. l \<le> idx ! k) idx)"
  then have i: "i < length idx" by simp
  have "(idx ! i \<le> idx ! k) = (i \<le> k)"
  proof (cases "i \<le> k")
    case True
    then show ?thesis
      using assms i by (cases "i = k") (auto simp: sorted_wrt_iff_nth_less less_imp_le)
  next
    case False
    then have "idx ! k < idx ! i" using assms i by (auto simp: sorted_wrt_iff_nth_less)
    with False show ?thesis by simp
  qed
  moreover have "(replicate (Suc k) True @ replicate (length idx - Suc k) False) ! i = (i < Suc k)"
    using i assms(2) nth_two_replicates[of i "Suc k" "length idx - Suc k" True False]
    by (simp del: replicate_Suc replicate.simps)
  ultimately show "map (\<lambda>l. l \<le> idx ! k) idx ! i
             = (replicate (Suc k) True @ replicate (length idx - Suc k) False) ! i"
    using i by (simp del: replicate_Suc replicate.simps add: less_Suc_eq_le)
qed

lemma mask2_sorted:
  assumes "sorted_wrt (<) (idx :: int list)" "k < length idx"
  shows "map (\<lambda>l. idx ! k \<le> l) idx = replicate k False @ replicate (length idx - k) True"
proof (rule nth_equalityI)
  show "length (map (\<lambda>l. idx ! k \<le> l) idx)
        = length (replicate k False @ replicate (length idx - k) True)"
    using assms(2) by simp
next
  fix i assume "i < length (map (\<lambda>l. idx ! k \<le> l) idx)"
  then have i: "i < length idx" by simp
  have "(idx ! k \<le> idx ! i) = (k \<le> i)"
  proof (cases "k \<le> i")
    case True
    then show ?thesis
      using assms i by (cases "i = k") (auto simp: sorted_wrt_iff_nth_less less_imp_le)
  next
    case False
    then have "idx ! i < idx ! k" using assms i by (auto simp: sorted_wrt_iff_nth_less)
    with False show ?thesis by simp
  qed
  moreover have "(replicate k False @ replicate (length idx - k) True) ! i = (\<not> i < k)"
    using i assms(2) nth_two_replicates[of i k "length idx - k" False True]
    by (simp del: replicate_Suc replicate.simps)
  ultimately show "map (\<lambda>l. idx ! k \<le> l) idx ! i
             = (replicate k False @ replicate (length idx - k) True) ! i"
    using i by (simp del: replicate_Suc replicate.simps add: not_less)
qed

lemma sel_head_mask: "sel (replicate a True @ replicate c False) xs = take a xs"
proof (induction a arbitrary: xs)
  case 0
  show ?case by (induction c arbitrary: xs) (auto split: list.splits, (case_tac xs; simp)+)
next
  case (Suc a)
  then show ?case by (cases xs) auto
qed

lemma sel_all_true: "length xs \<le> c \<Longrightarrow> sel (replicate c True) xs = xs"
  by (induction c arbitrary: xs) (auto, (case_tac xs; simp)+)

lemma sel_tail_mask: "length xs \<le> a + c \<Longrightarrow> sel (replicate a False @ replicate c True) xs = drop a xs"
proof (induction a arbitrary: xs)
  case 0
  then show ?case by (simp add: sel_all_true)
next
  case (Suc a)
  then show ?case by (cases xs) auto
qed

lemma put_all_false: "put (replicate c False) xs vs = xs"
  by (induction c arbitrary: xs) (auto, (case_tac xs; simp)+)

lemma put_head_mask:
  "length vs = a \<Longrightarrow> a \<le> length xs \<Longrightarrow>
   put (replicate a True @ replicate c False) xs vs = vs @ drop a xs"
proof (induction a arbitrary: xs vs)
  case 0
  then show ?case by (simp add: put_all_false)
next
  case (Suc a)
  then show ?case by (cases xs; cases vs) auto
qed

lemma put_all_true: "length vs = length xs \<Longrightarrow> length xs \<le> c \<Longrightarrow> put (replicate c True) xs vs = vs"
proof (induction c arbitrary: xs vs)
  case 0
  then show ?case by simp
next
  case (Suc c)
  then show ?case by (cases xs; cases vs) auto
qed

lemma put_tail_mask:
  "length vs = length xs - a \<Longrightarrow> length xs \<le> a + c \<Longrightarrow>
   put (replicate a False @ replicate c True) xs vs = take a xs @ vs"
proof (induction a arbitrary: xs)
  case 0
  then show ?case by (simp add: put_all_true)
next
  case (Suc a)
  then show ?case by (cases xs) auto
qed

lemma sel_mask1:
  assumes "sorted_wrt (<) (idx :: int list)" "k < length idx"
  shows "sel (map (\<lambda>l. l \<le> idx ! k) idx) xs = take (Suc k) xs"
  by (simp only: mask1_sorted[OF assms] sel_head_mask)

lemma sel_mask2:
  assumes "sorted_wrt (<) (idx :: int list)" "k < length idx" "length xs = length idx"
  shows "sel (map (\<lambda>l. idx ! k \<le> l) idx) xs = drop k xs"
  using assms by (simp only: mask2_sorted[OF assms(1,2)]) (simp add: sel_tail_mask)

lemma assign_mask1:
  assumes "sorted_wrt (<) (idx :: int list)" "k < length idx" "length xs = length idx"
  shows "assign_mask (map (\<lambda>l. l \<le> idx ! k) idx) xs vs = Inr r
         \<longleftrightarrow> length vs = Suc k \<and> r = vs @ drop (Suc k) xs"
proof -
  have "length (take (Suc k) xs) = Suc k" using assms by simp
  then show ?thesis
    unfolding assign_mask_def sel_mask1[OF assms(1,2)]
    using assms put_head_mask[of vs "Suc k" xs "length idx - Suc k"]
    by (auto simp only: mask1_sorted[OF assms(1,2)] split: if_splits)
qed

lemma assign_mask2:
  assumes "sorted_wrt (<) (idx :: int list)" "k < length idx" "length xs = length idx"
  shows "assign_mask (map (\<lambda>l. idx ! k \<le> l) idx) xs vs = Inr r
         \<longleftrightarrow> length vs = length idx - k \<and> r = take k xs @ vs"
proof -
  have "length (drop k xs) = length idx - k" using assms by simp
  then show ?thesis
    unfolding assign_mask_def sel_mask2[OF assms]
    using assms put_tail_mask[of vs xs k "length idx - k"]
    by (auto simp only: mask2_sorted[OF assms(1,2)] split: if_splits)
qed

lemma smooth_ma_two_segments:
  assumes s: "sorted_wrt (<) (idx :: int list)" and k: "k < length idx"
    and lx: "length vx = length idx" and ly: "length vy = length idx"
    and r: "smooth sgf idx (Some (idx ! k)) True ''moving average'' w p vx vy = Inr (ox, oy)"
  shows "\<exists>ma x1 y1 x2 y2.
           ma_window w = Inr ma
         \<and> np_convolve_same (bfill (ffill (take (Suc k) vx))) ma = Inr x1
         \<and> np_convolve_same (bfill (ffill (take (Suc k) vy))) ma = Inr y1
         \<and> np_convolve_same (bfill (ffill (drop k vx))) ma = Inr x2
         \<and> np_convolve_same (bfill (ffill (drop k vy))) ma = Inr y2
         \<and> length x1 = Suc k \<and> length y1 = Suc k
         \<and> length x2 = length idx - k \<and> length y2 = length idx - k
         \<and> ox = take k x1 @ x2 \<and> oy = take k y1 @ y2"
proof -
  from r obtain ma x1 vx1 y1 vy1 x2 y2 where
    ma: "ma_window w = Inr ma"
    and x1: "np_convolve_same (bfill (ffill (take (Suc k) vx))) ma = Inr x1"
    and a1: "assign_mask (map (\<lambda>l. l \<le> idx ! k) idx) vx x1 = Inr vx1"
    and y1: "np_convolve_same (bfill (ffill (take (Suc k) vy))) ma = Inr y1"
    and b1: "assign_mask (map (\<lambda>l. l \<le> idx ! k) idx) vy y1 = Inr vy1"
    and x2: "np_convolve_same (bfill (ffill (drop k vx))) ma = Inr x2"
    and a2: "assign_mask (map (\<lambda>l. idx ! k \<le> l) idx) vx1 x2 = Inr ox"
    and y2: "np_convolve_same (bfill (ffill (drop k vy))) ma = Inr y2"
    and b2: "assign_mask (map (\<lambda>l. idx ! k \<le> l) idx) vy1 y2 = Inr oy"
    by (auto simp: smooth_def Let_def ebind_eq_Inr sel_mask1[OF s k] sel_mask2[OF s k lx]
          sel_mask2[OF s k ly])
  from a1 have v1: "length x1 = Suc k" "vx1 = x1 @ drop (Suc k) vx"
    by (simp_all add: assign_mask1[OF s k lx])
  from b1 have w1: "length y1 = Suc k" "vy1 = y1 @ drop (Suc k) vy"
    by (simp_all add: assign_mask1[OF s k ly])
  have l1: "length vx1 = length idx" "length vy1 = length idx"
    using v1 w1 lx ly k by auto
  from a2 have v2: "length x2 = length idx - k" "ox = take k vx1 @ x2"
    by (simp_all add: assign_mask2[OF s k l1(1)])
  from b2 have w2: "length y2 = length idx - k" "oy = take k vy1 @ y2"
    by (simp_all add: assign_mask2[OF s k l1(2)])
  from v1 v2 w1 w2 have "ox = take k x1 @ x2" "oy = take k y1 @ y2" by simp_all
  with ma x1 y1 x2 y2 v1 w1 v2 w2 show ?thesis by blast
qed

lemma length_put [simp]: "length (put ms xs vs) = length xs"
  by (induction ms xs vs rule: put.induct) (auto split: list.splits)

lemma put_nth:
  "k < length xs \<Longrightarrow> k < length ms \<Longrightarrow> length vs = length (sel ms xs) \<Longrightarrow>
   put ms xs vs ! k = (if ms ! k then vs ! length (sel (take k ms) xs) else xs ! k)"
proof (induction ms xs vs arbitrary: k rule: put.induct)
  case (1 m ms x xs vs)
  show ?case
  proof (cases m)
    case True
    with "1.prems" obtain v vs' where vs: "vs = v # vs'" by (cases vs) auto
    show ?thesis
    proof (cases k)
      case 0
      then show ?thesis using True vs by simp
    next
      case (Suc j)
      with "1.IH"(1)[OF True vs, of j] "1.prems" True vs show ?thesis by simp
    qed
  next
    case False
    show ?thesis
    proof (cases k)
      case 0
      then show ?thesis using False by simp
    next
      case (Suc j)
      with "1.IH"(2)[OF False, of j] "1.prems" False show ?thesis by simp
    qed
  qed
qed simp_all

lemma length_sel_map:
  "length is \<le> length xs \<Longrightarrow> length (sel (map P is) xs) = length (filter P is)"
proof (induction "is" arbitrary: xs)
  case Nil
  show ?case by simp
next
  case (Cons i "is")
  then show ?case by (cases xs) auto
qed

lemma assign_mask_nth:
  assumes "assign_mask (map P idx) xs vs = Inr r" "k < length idx" "length xs = length idx"
    "P (idx ! k)"
  shows "r ! k = vs ! length (filter P (take k idx))"
proof -
  from assms(1) have l: "length vs = length (sel (map P idx) xs)" and r: "r = put (map P idx) xs vs"
    by (auto simp: assign_mask_def split: if_splits)
  have "length (sel (take k (map P idx)) xs) = length (filter P (take k idx))"
    using assms(2,3) by (simp add: take_map length_sel_map)
  with put_nth[of k xs "map P idx" vs] l r assms show ?thesis by simp
qed

lemma assign_mask_length: "assign_mask ms xs vs = Inr r \<Longrightarrow> length r = length xs"
  by (auto simp: assign_mask_def split: if_splits)

lemma filter_before_sorted:
  assumes "sorted_wrt (<) (idx :: int list)" "k < length idx"
  shows "filter (\<lambda>l. l \<le> idx ! k) (take k idx) = take k idx"
    and "filter (\<lambda>l. idx ! k \<le> l) (take k idx) = []"
proof -
  have "\<forall>l \<in> set (take k idx). l < idx ! k"
  proof
    fix l assume "l \<in> set (take k idx)"
    then obtain i where "i < k" "l = idx ! i"
      using assms(2) by (auto simp: in_set_conv_nth)
    then show "l < idx ! k" using assms by (auto simp: sorted_wrt_iff_nth_less)
  qed
  then show "filter (\<lambda>l. l \<le> idx ! k) (take k idx) = take k idx"
    and "filter (\<lambda>l. idx ! k \<le> l) (take k idx) = []"
    by (auto simp: filter_id_conv filter_empty_conv)
qed

text \<open>
  C10. With a half-time boundary at the row \<open>k\<close> labelled \<open>b\<close> and either filter, the
  boundary row is written twice. The first write puts there the value the first segment's
  smoother produced for it, the second write replaces it by the value the second segment's
  smoother produced for it, and that is the value returned. With increasing row labels
  these are the last value of the first output and the first value of the second. For
  Savitzky-Golay the second segment is read after the first write.
\<close>

theorem boundary_row_second_write_wins:
  assumes k: "k < length idx" and b: "idx ! k = b"
    and lx: "length vx = length idx" and ly: "length vy = length idx"
    and fk: "fk = ''Savitzky-Golay'' \<or> fk = ''moving average''"
    and r: "smooth sgf idx (Some b) True fk w p vx vy = Inr (ox, oy)"
  shows "\<exists>x1 y1 vx1 vy1 x2 y2.
           (fk = ''moving average'' \<longrightarrow>
              (\<exists>ma. ma_window w = Inr ma
                 \<and> np_convolve_same (bfill (ffill (sel (map (\<lambda>l. l \<le> b) idx) vx))) ma = Inr x1
                 \<and> np_convolve_same (bfill (ffill (sel (map (\<lambda>l. l \<le> b) idx) vy))) ma = Inr y1
                 \<and> np_convolve_same (bfill (ffill (sel (map (\<lambda>l. b \<le> l) idx) vx))) ma = Inr x2
                 \<and> np_convolve_same (bfill (ffill (sel (map (\<lambda>l. b \<le> l) idx) vy))) ma = Inr y2))
         \<and> (fk = ''Savitzky-Golay'' \<longrightarrow>
                 savgol_safe sgf (sel (map (\<lambda>l. l \<le> b) idx) vx) w p = Inr x1
                 \<and> savgol_safe sgf (sel (map (\<lambda>l. l \<le> b) idx) vy) w p = Inr y1
                 \<and> savgol_safe sgf (sel (map (\<lambda>l. b \<le> l) idx) vx1) w p = Inr x2
                 \<and> savgol_safe sgf (sel (map (\<lambda>l. b \<le> l) idx) vy1) w p = Inr y2)
         \<and> assign_mask (map (\<lambda>l. l \<le> b) idx) vx x1 = Inr vx1
         \<and> assign_mask (map (\<lambda>l. l \<le> b) idx) vy y1 = Inr vy1
         \<and> assign_mask (map (\<lambda>l. b \<le> l) idx) vx1 x2 = Inr ox
         \<and> assign_mask (map (\<lambda>l. b \<le> l) idx) vy1 y2 = Inr oy
         \<and> vx1 ! k = x1 ! length (filter (\<lambda>l. l \<le> b) (take k idx))
         \<and> vy1 ! k = y1 ! length (filter (\<lambda>l. l \<le> b) (take k idx))
         \<and> ox ! k = x2 ! length (filter (\<lambda>l. b \<le> l) (take k idx))
         \<and> oy ! k = y2 ! length (filter (\<lambda>l. b \<le> l) (take k idx))
         \<and> (sorted_wrt (<) idx \<longrightarrow>
               vx1 ! k = last x1 \<and> vy1 ! k = last y1 \<and> ox ! k = hd x2 \<and> oy ! k = hd y2)"
proof -
  let ?m1 = "map (\<lambda>l. l \<le> b) idx" and ?m2 = "map (\<lambda>l. b \<le> l) idx"
  have rest: "assign_mask ?m1 vx x1 = Inr vx1
         \<and> assign_mask ?m1 vy y1 = Inr vy1
         \<and> assign_mask ?m2 vx1 x2 = Inr ox
         \<and> assign_mask ?m2 vy1 y2 = Inr oy
         \<and> vx1 ! k = x1 ! length (filter (\<lambda>l. l \<le> b) (take k idx))
         \<and> vy1 ! k = y1 ! length (filter (\<lambda>l. l \<le> b) (take k idx))
         \<and> ox ! k = x2 ! length (filter (\<lambda>l. b \<le> l) (take k idx))
         \<and> oy ! k = y2 ! length (filter (\<lambda>l. b \<le> l) (take k idx))
         \<and> (sorted_wrt (<) idx \<longrightarrow>
               vx1 ! k = last x1 \<and> vy1 ! k = last y1 \<and> ox ! k = hd x2 \<and> oy ! k = hd y2)"
    if a: "assign_mask ?m1 vx x1 = Inr vx1" "assign_mask ?m1 vy y1 = Inr vy1"
          "assign_mask ?m2 vx1 x2 = Inr ox" "assign_mask ?m2 vy1 y2 = Inr oy"
    for x1 y1 vx1 vy1 x2 y2
  proof -
    have l1: "length vx1 = length idx" "length vy1 = length idx"
      using a(1,2) lx ly by (simp_all add: assign_mask_length)
    have n1: "vx1 ! k = x1 ! length (filter (\<lambda>l. l \<le> b) (take k idx))"
             "vy1 ! k = y1 ! length (filter (\<lambda>l. l \<le> b) (take k idx))"
      using assign_mask_nth[OF a(1) k lx] assign_mask_nth[OF a(2) k ly] b by simp_all
    have n2: "ox ! k = x2 ! length (filter (\<lambda>l. b \<le> l) (take k idx))"
             "oy ! k = y2 ! length (filter (\<lambda>l. b \<le> l) (take k idx))"
      using assign_mask_nth[OF a(3) k l1(1)] assign_mask_nth[OF a(4) k l1(2)] b by simp_all
    have srt: "vx1 ! k = last x1 \<and> vy1 ! k = last y1 \<and> ox ! k = hd x2 \<and> oy ! k = hd y2"
      if s: "sorted_wrt (<) idx"
    proof -
      note f = filter_before_sorted[OF s k, unfolded b]
      from a(1) lx have "length x1 = Suc k"
        using assign_mask1[OF s k lx, of x1 vx1] b by simp
      moreover from a(2) ly have "length y1 = Suc k"
        using assign_mask1[OF s k ly, of y1 vy1] b by simp
      moreover from a(3) have "length x2 = length idx - k"
        using assign_mask2[OF s k l1(1), of x2 ox] b by simp
      moreover from a(4) have "length y2 = length idx - k"
        using assign_mask2[OF s k l1(2), of y2 oy] b by simp
      ultimately have ls: "length x1 = Suc k" "length y1 = Suc k"
          "length x2 = length idx - k" "length y2 = length idx - k"
        by simp_all
      then have ne: "x1 \<noteq> []" "y1 \<noteq> []" "x2 \<noteq> []" "y2 \<noteq> []"
        using k by auto
      have "last x1 = x1 ! k" "last y1 = y1 ! k" "hd x2 = x2 ! 0" "hd y2 = y2 ! 0"
        using ne ls by (simp_all add: last_conv_nth hd_conv_nth)
      then show ?thesis
        using n1 n2 k unfolding f by (simp add: min_def)
    qed
    from a n1 n2 srt show ?thesis by blast
  qed
  show ?thesis
  proof (cases "fk = ''moving average''")
    case True
    from r[unfolded True] obtain ma x1 vx1 y1 vy1 x2 y2 where
      h: "ma_window w = Inr ma"
         "np_convolve_same (bfill (ffill (sel ?m1 vx))) ma = Inr x1"
         "np_convolve_same (bfill (ffill (sel ?m1 vy))) ma = Inr y1"
         "np_convolve_same (bfill (ffill (sel ?m2 vx))) ma = Inr x2"
         "np_convolve_same (bfill (ffill (sel ?m2 vy))) ma = Inr y2"
      and a: "assign_mask ?m1 vx x1 = Inr vx1" "assign_mask ?m1 vy y1 = Inr vy1"
          "assign_mask ?m2 vx1 x2 = Inr ox" "assign_mask ?m2 vy1 y2 = Inr oy"
      by (auto simp: smooth_def Let_def ebind_eq_Inr)
    from h True have
      "(fk = ''moving average'' \<longrightarrow>
         (\<exists>ma. ma_window w = Inr ma
            \<and> np_convolve_same (bfill (ffill (sel ?m1 vx))) ma = Inr x1
            \<and> np_convolve_same (bfill (ffill (sel ?m1 vy))) ma = Inr y1
            \<and> np_convolve_same (bfill (ffill (sel ?m2 vx))) ma = Inr x2
            \<and> np_convolve_same (bfill (ffill (sel ?m2 vy))) ma = Inr y2))
       \<and> (fk = ''Savitzky-Golay'' \<longrightarrow>
            savgol_safe sgf (sel ?m1 vx) w p = Inr x1
            \<and> savgol_safe sgf (sel ?m1 vy) w p = Inr y1
            \<and> savgol_safe sgf (sel ?m2 vx1) w p = Inr x2
            \<and> savgol_safe sgf (sel ?m2 vy1) w p = Inr y2)"
      by simp
    with rest[OF a] show ?thesis by blast
  next
    case False
    with fk have sg: "fk = ''Savitzky-Golay''" by simp
    from r[unfolded sg] obtain x1 vx1 y1 vy1 x2 y2 where
      h: "savgol_safe sgf (sel ?m1 vx) w p = Inr x1"
         "savgol_safe sgf (sel ?m1 vy) w p = Inr y1"
         "savgol_safe sgf (sel ?m2 vx1) w p = Inr x2"
         "savgol_safe sgf (sel ?m2 vy1) w p = Inr y2"
      and a: "assign_mask ?m1 vx x1 = Inr vx1" "assign_mask ?m1 vy y1 = Inr vy1"
          "assign_mask ?m2 vx1 x2 = Inr ox" "assign_mask ?m2 vy1 y2 = Inr oy"
      by (auto simp: smooth_def Let_def ebind_eq_Inr)
    from h sg have
      "(fk = ''moving average'' \<longrightarrow>
         (\<exists>ma. ma_window w = Inr ma
            \<and> np_convolve_same (bfill (ffill (sel ?m1 vx))) ma = Inr x1
            \<and> np_convolve_same (bfill (ffill (sel ?m1 vy))) ma = Inr y1
            \<and> np_convolve_same (bfill (ffill (sel ?m2 vx))) ma = Inr x2
            \<and> np_convolve_same (bfill (ffill (sel ?m2 vy))) ma = Inr y2))
       \<and> (fk = ''Savitzky-Golay'' \<longrightarrow>
            savgol_safe sgf (sel ?m1 vx) w p = Inr x1
            \<and> savgol_safe sgf (sel ?m1 vy) w p = Inr y1
            \<and> savgol_safe sgf (sel ?m2 vx1) w p = Inr x2
            \<and> savgol_safe sgf (sel ?m2 vy1) w p = Inr y2)"
      by simp
    with rest[OF a] show ?thesis by blast
  qed
qed

lemma boundary_eval:
  "smooth savgol_stub [0, 1, 2, 3, 4] (Some 2) True ''moving average'' 3 1
     [Val 1, Val 1, Val 2, Val 4, Val 0] [Val 0, Val 0, Val 0, Val 0, Val 0]
   = Inr ([Val (2 / 3), Val (4 / 3), Val 2, Val 2, Val (4 / 3)],
          [Val 0, Val 0, Val 0, Val 0, Val 0])"
  "ma_window 3 = Inr [Val (1 / 3), Val (1 / 3), Val (1 / 3)]"
  "np_convolve_same
     (bfill (ffill (sel (map (\<lambda>l. l \<le> 2) [0, 1, 2, 3, 4 :: int])
                        [Val 1, Val 1, Val 2, Val 4, Val 0])))
     [Val (1 / 3), Val (1 / 3), Val (1 / 3)] = Inr [Val (2 / 3), Val (4 / 3), Val 1]"
  "np_convolve_same
     (bfill (ffill (sel (map (\<lambda>l. 2 \<le> l) [0, 1, 2, 3, 4 :: int])
                        [Val 1, Val 1, Val 2, Val 4, Val 0])))
     [Val (1 / 3), Val (1 / 3), Val (1 / 3)] = Inr [Val 2, Val 2, Val (4 / 3)]"
  by code_simp+

theorem boundary_row_second_write_wins_witness:
  "(2::nat) < length [0, 1, 2, 3, 4 :: int] \<and> [0, 1, 2, 3, 4 :: int] ! 2 = 2
   \<and> sorted_wrt (<) [0, 1, 2, 3, 4 :: int]
   \<and> smooth savgol_stub [0, 1, 2, 3, 4] (Some 2) True ''moving average'' 3 1
        [Val 1, Val 1, Val 2, Val 4, Val 0] [Val 0, Val 0, Val 0, Val 0, Val 0]
      = Inr ([Val (2 / 3), Val (4 / 3), Val 2, Val 2, Val (4 / 3)],
             [Val 0, Val 0, Val 0, Val 0, Val 0])
   \<and> last [Val (2 / 3), Val (4 / 3), Val 1] = Val 1
   \<and> [Val (2 / 3), Val (4 / 3), Val 2, Val 2, Val (4 / 3)] ! 2 = hd [Val 2, Val 2, Val (4 / 3)]"
proof -
  let ?idx = "[0, 1, 2, 3, 4 :: int]"
  let ?vx = "[Val 1, Val 1, Val 2, Val 4, Val 0]" and ?vy = "[Val 0, Val 0, Val 0, Val 0, Val 0]"
  let ?ox = "[Val (2 / 3), Val (4 / 3), Val 2, Val 2, Val (4 / 3)]"
  have s: "sorted_wrt (<) ?idx" and k: "(2::nat) < length ?idx" and b: "?idx ! 2 = 2"
    by simp_all
  have lx: "length ?vx = length ?idx" and ly: "length ?vy = length ?idx"
    and fk: "''moving average'' = ''Savitzky-Golay'' \<or> ''moving average'' = ''moving average''"
    by simp_all
  note r = boundary_eval(1)
  from boundary_row_second_write_wins[OF k b lx ly fk r] s obtain x1 x2 vx1 ma where
    "ma_window 3 = Inr ma"
    "np_convolve_same (bfill (ffill (sel (map (\<lambda>l. l \<le> 2) ?idx) ?vx))) ma = Inr x1"
    "np_convolve_same (bfill (ffill (sel (map (\<lambda>l. 2 \<le> l) ?idx) ?vx))) ma = Inr x2"
    "vx1 ! 2 = last x1" "?ox ! 2 = hd x2"
    by blast
  with boundary_eval(2,3,4) have "last [Val (2 / 3), Val (4 / 3), Val 1] = Val 1"
      "?ox ! 2 = hd [Val 2, Val 2, Val (4 / 3)]"
    by auto
  with s k b r show ?thesis by blast
qed

section \<open>Segment isolation\<close>

lemma diffs_nth:
  "i < length xs \<Longrightarrow> diffs q xs ! i = fsub (xs ! i) (if i = 0 then q else xs ! (i - 1))"
proof (induction xs arbitrary: q i)
  case Nil
  then show ?case by simp
next
  case (Cons x xs)
  then show ?case by (cases i) (auto simp: nth_Cons')
qed

lemma diff_nth:
  "i < length xs \<Longrightarrow> diff xs ! i = (if i = 0 then NaN else fsub (xs ! i) (xs ! (i - 1)))"
  by (cases xs; cases i) (auto simp: diffs_nth nth_Cons')

lemma drop_eq_iff_nth:
  assumes "length a = length b"
  shows "drop k a = drop k b \<longleftrightarrow> (\<forall>i. k \<le> i \<and> i < length a \<longrightarrow> a ! i = b ! i)"
proof
  assume e: "drop k a = drop k b"
  show "\<forall>i. k \<le> i \<and> i < length a \<longrightarrow> a ! i = b ! i"
  proof (intro allI impI)
    fix i assume i: "k \<le> i \<and> i < length a"
    then have "drop k a ! (i - k) = a ! i" "drop k b ! (i - k) = b ! i"
      using assms by simp_all
    with e show "a ! i = b ! i" by simp
  qed
next
  assume h: "\<forall>i. k \<le> i \<and> i < length a \<longrightarrow> a ! i = b ! i"
  show "drop k a = drop k b"
    by (rule nth_equalityI) (use assms h in auto)
qed

lemma drop_diff_local:
  assumes "0 < k" "length xs' = length xs" "drop (k - 1) xs' = drop (k - 1) xs"
  shows "drop k (diff xs') = drop k (diff xs)"
proof -
  from assms(2,3) have h: "\<And>i. k - 1 \<le> i \<Longrightarrow> i < length xs \<Longrightarrow> xs' ! i = xs ! i"
    by (simp add: drop_eq_iff_nth)
  have "\<forall>i. k \<le> i \<and> i < length (diff xs') \<longrightarrow> diff xs' ! i = diff xs ! i"
  proof (intro allI impI)
    fix i assume i: "k \<le> i \<and> i < length (diff xs')"
    then have "i < length xs" "i < length xs'" "i \<noteq> 0" using assms by auto
    moreover have "xs' ! i = xs ! i" "xs' ! (i - 1) = xs ! (i - 1)"
      using i assms h[of i] h[of "i - 1"] by auto
    ultimately show "diff xs' ! i = diff xs ! i" by (simp add: diff_nth)
  qed
  then show ?thesis using assms(2) by (subst drop_eq_iff_nth) auto
qed

lemma drop_sdiv: "drop k (sdiv a dt) = sdiv (drop k a) (drop k dt)"
  by (simp add: sdiv_def drop_map drop_zip)

lemma drop_mask_nan: "drop k (mask_nan ms xs) = mask_nan (drop k ms) (drop k xs)"
proof (induction ms xs arbitrary: k rule: mask_nan.induct)
  case (1 m ms x xs)
  then show ?case by (cases k) auto
qed simp_all

lemma drop_reject_outliers:
  "drop k (fst (reject_outliers m vx vy)) = fst (reject_outliers m (drop k vx) (drop k vy))"
  "drop k (snd (reject_outliers m vx vy)) = snd (reject_outliers m (drop k vx) (drop k vy))"
  by (auto simp: reject_outliers_def Let_def drop_mask_nan drop_map drop_zip split: option.splits)

lemma drop_replace_inf: "drop k (replace_inf xs) = replace_inf (drop k xs)"
  by (simp add: replace_inf_def drop_map)

lemma interp_go_after_valid:
  "v \<noteq> NaN \<Longrightarrow>
   drop (j + length as) (interp_go prev j (as @ v # bs)) = v # interp_go (Some v) 0 bs"
proof (induction as arbitrary: prev j)
  case Nil
  then show ?case by (auto split: option.splits)
next
  case (Cons a as)
  show ?case
  proof (cases "a = NaN")
    case True
    with Cons.IH[OF Cons.prems, where prev = prev and j = "Suc j"] show ?thesis by simp
  next
    case False
    define pre where "pre = (case prev of None \<Rightarrow> replicate j a
                             | Some q \<Rightarrow> map (lerp q a (Suc j)) [1..<Suc j])"
    have lp: "length pre = j" by (simp add: pre_def split: option.splits)
    have "interp_go prev j ((a # as) @ v # bs)
          = pre @ a # interp_go (Some a) 0 (as @ v # bs)"
      using False by (simp add: pre_def)
    then have "drop (j + length (a # as)) (interp_go prev j ((a # as) @ v # bs))
          = drop (length as) (interp_go (Some a) 0 (as @ v # bs))"
      using lp by simp
    with Cons.IH[OF Cons.prems, where prev = "Some a" and j = 0] show ?thesis
      by simp
  qed
qed

lemma drop_interpolate_valid:
  assumes "k < length s" "s ! k \<noteq> NaN"
  shows "drop k (interpolate s) = s ! k # interp_go (Some (s ! k)) 0 (drop (Suc k) s)"
proof -
  have "s = take k s @ s ! k # drop (Suc k) s" using assms(1) by (simp add: id_take_nth_drop)
  then have "interpolate s = interp_go None 0 (take k s @ s ! k # drop (Suc k) s)"
    by (simp add: interpolate_def)
  moreover have "length (take k s) = k" using assms(1) by simp
  ultimately show ?thesis
    using interp_go_after_valid[OF assms(2), where j = 0 and as = "take k s" and prev = None and bs = "drop (Suc k) s"] by simp
qed

lemma drop_gap_repair_local:
  assumes "length v' = length v" "k < length v" "drop k v' = drop k v" "v ! k = Val a"
  shows "drop k (gap_repair v') = drop k (gap_repair v)"
proof -
  let ?s = "replace_inf v" and ?s' = "replace_inf v'"
  have d: "drop k ?s' = drop k ?s" using assms(3) by (simp add: drop_replace_inf)
  have l: "k < length ?s" "k < length ?s'" using assms by simp_all
  have "?s ! k = Val a" using assms by (simp add: replace_inf_def)
  moreover from d l have "?s' ! k = ?s ! k"
    by (metis Cons_nth_drop_Suc list.inject)
  moreover from d have "drop (Suc k) ?s' = drop (Suc k) ?s"
    by (metis drop_drop plus_1_eq_Suc)
  ultimately show ?thesis
    using drop_interpolate_valid[of k ?s] drop_interpolate_valid[of k ?s'] l
    by (simp add: gap_repair_def)
qed

lemma player_velocities_eq:
  "player_velocities sgf idx dt shi sm fk w p m xs ys
   = smooth sgf idx shi sm fk w p
       (gap_repair (fst (reject_outliers m (sdiv (diff xs) dt) (sdiv (diff ys) dt))))
       (gap_repair (snd (reject_outliers m (sdiv (diff xs) dt) (sdiv (diff ys) dt))))"
  by (simp add: player_velocities_def split_beta Let_def)

text \<open>
  C6, as stated, fails: the finite difference at the boundary row reads the row before it.
  A position spike at row 1, the row before the boundary row 2, changes the smoothed
  velocity at row 3.
\<close>

theorem first_segment_spike_reaches_second_segment:
  "second_half_idx (spike_table 0) = Some 2 \<and> second_half_idx (spike_table 1) = Some 2
   \<and> cell (calc_player_velocities savgol_stub (spike_table 0) True ''moving average'' 3 1 None)
        ''Home_1_vx'' 3 = Some (Val 0)
   \<and> cell (calc_player_velocities savgol_stub (spike_table 1) True ''moving average'' 3 1 None)
        ''Home_1_vx'' 3 = Some (Val (- 1 / 3))"
  by code_simp

text \<open>
  C6, amended. For the moving-average filter and a boundary at row \<open>k > 0\<close> (row labels
  increasing): when the positions of two runs agree from row \<open>k - 1\<close> on, and the boundary
  row's velocity is a finite value after outlier rejection, the smoothed velocities of the
  two runs agree at every row of the second segment.
\<close>

theorem second_segment_isolated_moving_average:
  assumes s: "sorted_wrt (<) (idx :: int list)" and k: "k < length idx" and k0: "0 < k"
    and len: "length xs = length idx" "length ys = length idx" "length dt = length idx"
             "length xs' = length idx" "length ys' = length idx"
    and dx: "drop (k - 1) xs' = drop (k - 1) xs" and dy: "drop (k - 1) ys' = drop (k - 1) ys"
    and valid: "fst (reject_outliers m (sdiv (diff xs) dt) (sdiv (diff ys) dt)) ! k = Val a"
               "snd (reject_outliers m (sdiv (diff xs) dt) (sdiv (diff ys) dt)) ! k = Val c"
    and r: "player_velocities sgf idx dt (Some (idx ! k)) True ''moving average'' w p m xs ys
            = Inr (ox, oy)"
    and r': "player_velocities sgf idx dt (Some (idx ! k)) True ''moving average'' w p m xs' ys'
            = Inr (ox', oy')"
  shows "drop k ox' = drop k ox \<and> drop k oy' = drop k oy"
proof -
  let ?rx = "sdiv (diff xs) dt" and ?ry = "sdiv (diff ys) dt"
  let ?rx' = "sdiv (diff xs') dt" and ?ry' = "sdiv (diff ys') dt"
  let ?cx = "fst (reject_outliers m ?rx ?ry)" and ?cy = "snd (reject_outliers m ?rx ?ry)"
  let ?cx' = "fst (reject_outliers m ?rx' ?ry')" and ?cy' = "snd (reject_outliers m ?rx' ?ry')"
  let ?gx = "gap_repair ?cx" and ?gy = "gap_repair ?cy"
  let ?gx' = "gap_repair ?cx'" and ?gy' = "gap_repair ?cy'"
  have rx: "drop k ?rx' = drop k ?rx"
    using drop_diff_local[OF k0 _ dx] len by (simp add: drop_sdiv)
  have ry: "drop k ?ry' = drop k ?ry"
    using drop_diff_local[OF k0 _ dy] len by (simp add: drop_sdiv)
  have cx: "drop k ?cx' = drop k ?cx" and cy: "drop k ?cy' = drop k ?cy"
    using rx ry by (simp_all add: drop_reject_outliers)
  have lc: "length ?cx' = length ?cx" "k < length ?cx" "length ?cy' = length ?cy" "k < length ?cy"
    using len k by simp_all
  have gx: "drop k ?gx' = drop k ?gx"
    using drop_gap_repair_local[OF lc(1,2) cx valid(1)] .
  have gy: "drop k ?gy' = drop k ?gy"
    using drop_gap_repair_local[OF lc(3,4) cy valid(2)] .
  have lg: "length ?gx = length idx" "length ?gy = length idx"
           "length ?gx' = length idx" "length ?gy' = length idx"
    using len by simp_all
  from smooth_ma_two_segments[OF s k lg(1,2) r[unfolded player_velocities_eq]]
  obtain ma x1 y1 x2 y2 where
    h: "ma_window w = Inr ma"
       "np_convolve_same (bfill (ffill (drop k ?gx))) ma = Inr x2"
       "np_convolve_same (bfill (ffill (drop k ?gy))) ma = Inr y2"
       "length x1 = Suc k" "length y1 = Suc k"
       "ox = take k x1 @ x2" "oy = take k y1 @ y2"
    by blast
  from smooth_ma_two_segments[OF s k lg(3,4) r'[unfolded player_velocities_eq]]
  obtain ma' x1' y1' x2' y2' where
    h': "ma_window w = Inr ma'"
       "np_convolve_same (bfill (ffill (drop k ?gx'))) ma' = Inr x2'"
       "np_convolve_same (bfill (ffill (drop k ?gy'))) ma' = Inr y2'"
       "length x1' = Suc k" "length y1' = Suc k"
       "ox' = take k x1' @ x2'" "oy' = take k y1' @ y2'"
    by blast
  from h(1) h'(1) have "ma' = ma" by simp
  with h h' gx gy have "x2' = x2" "y2' = y2" by simp_all
  with h h' show ?thesis by simp
qed

lemma isolation_eval:
  "player_velocities savgol_stub [0, 1, 2, 3, 4] [NaN, Val 1, Val 1, Val 1, Val 1] (Some 2) True
     ''moving average'' 3 1 None
     [Val 0, Val 1, Val 3, Val 4, Val 4] [Val 0, Val 0, Val 0, Val 0, Val 0]
   = Inr ([Val (2 / 3), Val (4 / 3), Val 1, Val 1, Val (1 / 3)],
          [Val 0, Val 0, Val 0, Val 0, Val 0])"
  "player_velocities savgol_stub [0, 1, 2, 3, 4] [NaN, Val 1, Val 1, Val 1, Val 1] (Some 2) True
     ''moving average'' 3 1 None
     [Val 5, Val 1, Val 3, Val 4, Val 4] [Val 0, Val 0, Val 0, Val 0, Val 0]
   = Inr ([Val (- 8 / 3), Val (- 2), Val 1, Val 1, Val (1 / 3)],
          [Val 0, Val 0, Val 0, Val 0, Val 0])"
  by code_simp+

lemma reject_eval:
  "fst (reject_outliers None (sdiv (diff [Val 0, Val 1, Val 3, Val 4, Val 4])
                                 [NaN, Val 1, Val 1, Val 1, Val 1])
                            (sdiv (diff [Val 0, Val 0, Val 0, Val 0, Val 0])
                                 [NaN, Val 1, Val 1, Val 1, Val 1])) ! 2 = Val 2"
  "snd (reject_outliers None (sdiv (diff [Val 0, Val 1, Val 3, Val 4, Val 4])
                                 [NaN, Val 1, Val 1, Val 1, Val 1])
                            (sdiv (diff [Val 0, Val 0, Val 0, Val 0, Val 0])
                                 [NaN, Val 1, Val 1, Val 1, Val 1])) ! 2 = Val 0"
  by code_simp+

theorem second_segment_isolated_moving_average_witness:
  "sorted_wrt (<) [0, 1, 2, 3, 4 :: int] \<and> (2::nat) < length [0, 1, 2, 3, 4 :: int]
   \<and> drop (2 - 1) [Val 5, Val 1, Val 3, Val 4, Val 4] = drop (2 - 1) [Val 0, Val 1, Val 3, Val 4, Val 4]
   \<and> player_velocities savgol_stub [0, 1, 2, 3, 4] [NaN, Val 1, Val 1, Val 1, Val 1]
        (Some ([0, 1, 2, 3, 4] ! 2)) True ''moving average'' 3 1 None
        [Val 0, Val 1, Val 3, Val 4, Val 4] [Val 0, Val 0, Val 0, Val 0, Val 0]
      = Inr ([Val (2 / 3), Val (4 / 3), Val 1, Val 1, Val (1 / 3)],
             [Val 0, Val 0, Val 0, Val 0, Val 0])
   \<and> player_velocities savgol_stub [0, 1, 2, 3, 4] [NaN, Val 1, Val 1, Val 1, Val 1]
        (Some ([0, 1, 2, 3, 4] ! 2)) True ''moving average'' 3 1 None
        [Val 5, Val 1, Val 3, Val 4, Val 4] [Val 0, Val 0, Val 0, Val 0, Val 0]
      = Inr ([Val (- 8 / 3), Val (- 2), Val 1, Val 1, Val (1 / 3)],
             [Val 0, Val 0, Val 0, Val 0, Val 0])
   \<and> drop 2 [Val (- 8 / 3), Val (- 2), Val 1, Val 1, Val (1 / 3)]
       = drop 2 [Val (2 / 3), Val (4 / 3), Val 1, Val 1, Val (1 / 3)]"
proof -
  let ?idx = "[0, 1, 2, 3, 4 :: int]"
  have s: "sorted_wrt (<) ?idx" and k: "(2::nat) < length ?idx" by simp_all
  have r: "player_velocities savgol_stub ?idx [NaN, Val 1, Val 1, Val 1, Val 1]
        (Some (?idx ! 2)) True ''moving average'' 3 1 None
        [Val 0, Val 1, Val 3, Val 4, Val 4] [Val 0, Val 0, Val 0, Val 0, Val 0]
      = Inr ([Val (2 / 3), Val (4 / 3), Val 1, Val 1, Val (1 / 3)],
             [Val 0, Val 0, Val 0, Val 0, Val 0])"
    and r': "player_velocities savgol_stub ?idx [NaN, Val 1, Val 1, Val 1, Val 1]
        (Some (?idx ! 2)) True ''moving average'' 3 1 None
        [Val 5, Val 1, Val 3, Val 4, Val 4] [Val 0, Val 0, Val 0, Val 0, Val 0]
      = Inr ([Val (- 8 / 3), Val (- 2), Val 1, Val 1, Val (1 / 3)],
             [Val 0, Val 0, Val 0, Val 0, Val 0])"
    using isolation_eval by simp_all
  have d: "drop (2 - 1) [Val 5, Val 1, Val 3, Val 4, Val 4]
           = drop (2 - 1) [Val 0, Val 1, Val 3, Val 4, Val 4]" by simp
  from second_segment_isolated_moving_average[OF s k _ _ _ _ _ _ d _ reject_eval r r']
  have "drop 2 [Val (- 8 / 3), Val (- 2), Val 1, Val 1, Val (1 / 3)]
        = drop 2 [Val (2 / 3), Val (4 / 3), Val 1, Val 1, Val (1 / 3)]"
    by simp
  with s k d r r' show ?thesis by blast
qed

section \<open>The players\<close>

lemma last_part_xy [simp]: "last_part (q @ ''_x'') = ''x''" "last_part (q @ ''_y'') = ''y''"
  by (simp_all add: last_part_def)

lemma not_derived_xy [simp]: "\<not> is_derived (q @ ''_x'')" "\<not> is_derived (q @ ''_y'')"
  by (simp_all add: is_derived_def)

lemma column_names_remove:
  "column_names (remove_player_velocities t) = filter (\<lambda>c. \<not> is_derived c) (column_names t)"
  by (simp add: column_names_def remove_columns filter_map comp_def)

lemma take4_suffix:
  "take 4 (q @ ''_x'') \<in> set [''Home'', ''Away''] \<longleftrightarrow> take 4 q \<in> set [''Home'', ''Away'']"
  "take 4 (q @ ''_y'') \<in> set [''Home'', ''Away''] \<longleftrightarrow> take 4 q \<in> set [''Home'', ''Away'']"
proof -
  have *: "take 4 (q @ s) \<in> set [''Home'', ''Away''] \<longleftrightarrow> take 4 q \<in> set [''Home'', ''Away'']"
    if "s = ''_x'' \<or> s = ''_y''" for s
  proof (cases "4 \<le> length q")
    case True
    then show ?thesis by simp
  next
    case False
    then consider "length q = 0" | "length q = 1" | "length q = 2" | "length q = 3" by linarith
    then show ?thesis
    proof cases
      case 1 then show ?thesis using that by auto
    next
      case 2
      then obtain a where "q = [a]" by (cases q) auto
      then show ?thesis using that by auto
    next
      case 3
      then obtain a b where "q = [a, b]" by (cases q; cases "tl q") auto
      then show ?thesis using that by auto
    next
      case 4
      then obtain a b c where "q = [a, b, c]"
        by (cases q; cases "tl q"; cases "tl (tl q)") auto
      then show ?thesis using that by auto
    qed
  qed
  show "take 4 (q @ ''_x'') \<in> set [''Home'', ''Away''] \<longleftrightarrow> take 4 q \<in> set [''Home'', ''Away'']"
    "take 4 (q @ ''_y'') \<in> set [''Home'', ''Away''] \<longleftrightarrow> take 4 q \<in> set [''Home'', ''Away'']"
    using * by blast+
qed

lemma is_position_col_suffix [simp]:
  "is_position_col (q @ ''_x'') \<longleftrightarrow> take 4 q \<in> set [''Home'', ''Away'']"
  "is_position_col (q @ ''_y'') \<longleftrightarrow> take 4 q \<in> set [''Home'', ''Away'']"
  unfolding is_position_col_def take4_suffix by (simp_all add: endswith_def)

lemma is_position_col_split:
  assumes "is_position_col c"
  shows "c = take (length c - 2) c @ ''_x'' \<or> c = take (length c - 2) c @ ''_y''"
proof -
  from assms have "drop (length c - 2) c = ''_x'' \<or> drop (length c - 2) c = ''_y''"
    by (auto simp: is_position_col_def endswith_def eval_nat_numeral)
  then show ?thesis by (metis append_take_drop_id)
qed

lemma set_player_ids:
  "set (player_ids cols)
   = {q. take 4 q \<in> set [''Home'', ''Away''] \<and> (q @ ''_x'' \<in> set cols \<or> q @ ''_y'' \<in> set cols)}"
proof (intro set_eqI iffI)
  fix q assume "q \<in> set (player_ids cols)"
  then obtain c where c: "c \<in> set cols" "is_position_col c" "q = take (length c - 2) c"
    by (auto simp: player_ids_def)
  from is_position_col_split[OF c(2)] c(3) have "c = q @ ''_x'' \<or> c = q @ ''_y''" by simp
  with c(1,2) show "q \<in> {q. take 4 q \<in> set [''Home'', ''Away'']
                          \<and> (q @ ''_x'' \<in> set cols \<or> q @ ''_y'' \<in> set cols)}"
    by auto
next
  fix q assume "q \<in> {q. take 4 q \<in> set [''Home'', ''Away'']
                          \<and> (q @ ''_x'' \<in> set cols \<or> q @ ''_y'' \<in> set cols)}"
  then obtain c where c: "c \<in> set cols" "is_position_col c" "c = q @ ''_x'' \<or> c = q @ ''_y''"
    by auto
  then have "q = take (length c - 2) c" by auto
  with c(1,2) show "q \<in> set (player_ids cols)"
    unfolding player_ids_def by (simp add: image_iff) blast
qed

lemma set_names_assign_col:
  "fst ` set (assign_col n s cs) = insert n (fst ` set cs)"
proof (induction cs)
  case Nil
  show ?case by simp
next
  case (Cons c cs)
  obtain k x where c: "c = (k, x)" by (cases c)
  show ?case
  proof (cases "k = n")
    case True
    then show ?thesis by (simp add: c)
  next
    case False
    then show ?thesis using Cons.IH by (simp add: c insert_commute)
  qed
qed

lemma get_col_Inr_name: "get_col t n = Inr s \<Longrightarrow> n \<in> set (column_names t)"
  by (auto simp: get_col_def column_names_def split: option.splits dest: map_of_SomeD
           intro: rev_image_eqI)

lemma player_step_names:
  assumes "player_step sgf dt shi sm fk w p m team q = Inr team'"
  shows "set (column_names team')
           = set (column_names team) \<union> {q @ ''_vx'', q @ ''_vy'', q @ ''_speed''}"
    and "q @ ''_x'' \<in> set (column_names team)" and "q @ ''_y'' \<in> set (column_names team)"
proof -
  from assms obtain xs ys vx vy where
    g: "get_col team (q @ ''_x'') = Inr xs" "get_col team (q @ ''_y'') = Inr ys"
    and t: "team' = set_col (set_col (set_col team (q @ ''_vx'') vx) (q @ ''_vy'') vy)
                      (q @ ''_speed'') (map2 speed_of vx vy)"
    by (auto simp: player_step_def ebind_eq_Inr)
  show "q @ ''_x'' \<in> set (column_names team)" "q @ ''_y'' \<in> set (column_names team)"
    using g by (simp_all add: get_col_Inr_name)
  have "fst ` set (columns team')
        = insert (q @ ''_speed'') (insert (q @ ''_vy'') (insert (q @ ''_vx'')
            (fst ` set (columns team))))"
    by (simp add: t set_col_def set_names_assign_col)
  then show "set (column_names team')
           = set (column_names team) \<union> {q @ ''_vx'', q @ ''_vy'', q @ ''_speed''}"
    unfolding column_names_def set_map by blast
qed

lemma derived_names_derived: "c \<in> derived_names ids \<Longrightarrow> is_derived c"
  by (auto simp: derived_names_def)

lemma players_loop_names:
  "players_loop (player_step sgf dt shi sm fk w p m) ids team = (None, team') \<Longrightarrow>
   set (column_names team') = set (column_names team) \<union> derived_names ids
   \<and> (\<forall>q \<in> set ids. q @ ''_x'' \<in> set (column_names team) \<and> q @ ''_y'' \<in> set (column_names team))"
proof (induction ids arbitrary: team)
  case Nil
  then show ?case by (simp add: derived_names_def)
next
  case (Cons a ids)
  show ?case
  proof (cases "player_step sgf dt shi sm fk w p m team a")
    case (Inl e)
    with Cons.prems show ?thesis by simp
  next
    case (Inr t1)
    with Cons.prems
    have l: "players_loop (player_step sgf dt shi sm fk w p m) ids t1 = (None, team')" by simp
    note s = player_step_names[OF Inr]
    note ih = Cons.IH[OF l]
    have "q @ ''_x'' \<in> set (column_names team) \<and> q @ ''_y'' \<in> set (column_names team)"
      if "q \<in> set ids" for q
    proof -
      from ih that have "q @ ''_x'' \<in> set (column_names t1)" "q @ ''_y'' \<in> set (column_names t1)"
        by auto
      then show ?thesis unfolding s(1) by (auto simp: is_derived_def last_part_def)
    qed
    with ih s show ?thesis by (auto simp: derived_names_def)
  qed
qed

lemma suffix_vx_cases:
  "q @ ''_vx'' \<in> derived_names ids \<longleftrightarrow> q \<in> set ids"
  "q @ ''_vy'' \<in> derived_names ids \<longleftrightarrow> q \<in> set ids"
  "q @ ''_speed'' \<in> derived_names ids \<longleftrightarrow> q \<in> set ids"
proof -
  have a: "q @ ''_vx'' \<noteq> r @ ''_vy''" "q @ ''_vx'' \<noteq> r @ ''_speed''"
          "q @ ''_vy'' \<noteq> r @ ''_vx''" "q @ ''_vy'' \<noteq> r @ ''_speed''"
          "q @ ''_speed'' \<noteq> r @ ''_vx''" "q @ ''_speed'' \<noteq> r @ ''_vy''" for r
    by (auto dest: arg_cong[where f = last])
  show "q @ ''_vx'' \<in> derived_names ids \<longleftrightarrow> q \<in> set ids"
    "q @ ''_vy'' \<in> derived_names ids \<longleftrightarrow> q \<in> set ids"
    "q @ ''_speed'' \<in> derived_names ids \<longleftrightarrow> q \<in> set ids"
    using a by (auto simp: derived_names_def)
qed

lemma calc_names:
  assumes "calc_player_velocities sgf team sm fk w p m = Inr team'"
  shows "set (column_names team')
         = {c \<in> set (column_names team). \<not> is_derived c}
           \<union> derived_names (player_ids (column_names (remove_player_velocities team)))"
    and "\<forall>q \<in> set (player_ids (column_names (remove_player_velocities team))).
           q @ ''_x'' \<in> set (column_names team) \<and> q @ ''_y'' \<in> set (column_names team)"
proof -
  let ?t = "remove_player_velocities team"
  from assms obtain time where
    l: "players_loop (player_step sgf (diff time) (second_half_idx ?t) sm fk w p m)
          (player_ids (column_names ?t)) ?t = (None, team')"
    by (auto simp: calc_player_velocities_def calc_body_def Let_def
             split: sum.splits prod.splits option.splits)
  from players_loop_names[OF l]
  show "set (column_names team')
         = {c \<in> set (column_names team). \<not> is_derived c}
           \<union> derived_names (player_ids (column_names ?t))"
    and "\<forall>q \<in> set (player_ids (column_names ?t)).
           q @ ''_x'' \<in> set (column_names team) \<and> q @ ''_y'' \<in> set (column_names team)"
    by (auto simp: column_names_remove)
qed

text \<open>
  C4, as stated, fails: the prefix \<open>ball\<close> has both position fields, and no derived field
  is computed for it; the table comes back as it went in.
\<close>

theorem ball_prefix_is_no_player:
  "''ball_x'' \<in> set (column_names ball_table) \<and> ''ball_y'' \<in> set (column_names ball_table)
   \<and> calc_player_velocities savgol_stub ball_table True ''Savitzky-Golay'' 7 1 None
       = Inr ball_table"
  by code_simp

text \<open>
  C4, amended. The players enumerated are the prefixes that begin with \<open>Home\<close> or \<open>Away\<close>
  and have an \<open>_x\<close> or a \<open>_y\<close> field. Whenever the estimator returns, the prefixes with a
  computed \<open>_vx\<close> field (and likewise \<open>_vy\<close>, \<open>_speed\<close>) are exactly those that begin
  with \<open>Home\<close> or \<open>Away\<close> and have both position fields.
\<close>

theorem players_with_derived_fields:
  "set (player_ids (column_names (remove_player_velocities team)))
     = {q. take 4 q \<in> set [''Home'', ''Away'']
           \<and> (q @ ''_x'' \<in> set (column_names team) \<or> q @ ''_y'' \<in> set (column_names team))}
   \<and> (calc_player_velocities sgf team sm fk w p m = Inr team' \<longrightarrow>
        {q. q @ ''_vx'' \<in> set (column_names team')}
          = {q. take 4 q \<in> set [''Home'', ''Away'']
                \<and> q @ ''_x'' \<in> set (column_names team) \<and> q @ ''_y'' \<in> set (column_names team)}
        \<and> {q. q @ ''_vy'' \<in> set (column_names team')} = {q. q @ ''_vx'' \<in> set (column_names team')}
        \<and> {q. q @ ''_speed'' \<in> set (column_names team')}
            = {q. q @ ''_vx'' \<in> set (column_names team')})"
proof (intro conjI impI)
  let ?ids = "player_ids (column_names (remove_player_velocities team))"
  show ids: "set ?ids
     = {q. take 4 q \<in> set [''Home'', ''Away'']
           \<and> (q @ ''_x'' \<in> set (column_names team) \<or> q @ ''_y'' \<in> set (column_names team))}"
    by (auto simp: set_player_ids column_names_remove)
  assume r: "calc_player_velocities sgf team sm fk w p m = Inr team'"
  note n = calc_names[OF r]
  have vx: "q @ ''_vx'' \<in> set (column_names team') \<longleftrightarrow> q \<in> set ?ids" for q
    unfolding n(1) by (simp add: suffix_vx_cases)
  have vy: "q @ ''_vy'' \<in> set (column_names team') \<longleftrightarrow> q \<in> set ?ids" for q
    unfolding n(1) by (simp add: suffix_vx_cases)
  have sp: "q @ ''_speed'' \<in> set (column_names team') \<longleftrightarrow> q \<in> set ?ids" for q
    unfolding n(1) by (simp add: suffix_vx_cases)
  show "{q. q @ ''_vx'' \<in> set (column_names team')}
          = {q. take 4 q \<in> set [''Home'', ''Away'']
                \<and> q @ ''_x'' \<in> set (column_names team) \<and> q @ ''_y'' \<in> set (column_names team)}"
    unfolding vx using n(2) unfolding ids by blast
  show "{q. q @ ''_vy'' \<in> set (column_names team')} = {q. q @ ''_vx'' \<in> set (column_names team')}"
    unfolding vx vy ..
  show "{q. q @ ''_speed'' \<in> set (column_names team')} = {q. q @ ''_vx'' \<in> set (column_names team')}"
    unfolding vx sp ..
qed

theorem players_with_derived_fields_witness:
  "(case calc_player_velocities savgol_stub demo_table True ''moving average'' 3 1 None of
      Inl e \<Rightarrow> False
    | Inr t' \<Rightarrow>
        {q. q @ ''_vx'' \<in> set (column_names t')}
          = {q. take 4 q \<in> set [''Home'', ''Away'']
                \<and> q @ ''_x'' \<in> set (column_names demo_table)
                \<and> q @ ''_y'' \<in> set (column_names demo_table)}
        \<and> ''Home_1'' @ ''_vx'' \<in> set (column_names t'))"
proof -
  from demo_moving_average_returns obtain t'
    where t: "calc_player_velocities savgol_stub demo_table True ''moving average'' 3 1 None
              = Inr t'"
    by (auto split: sum.splits)
  have d: "take 4 ''Home_1'' \<in> set [''Home'', ''Away'']
           \<and> ''Home_1'' @ ''_x'' \<in> set (column_names demo_table)
           \<and> ''Home_1'' @ ''_y'' \<in> set (column_names demo_table)"
    by (simp add: demo_table_def column_names_def)
  from players_with_derived_fields[of demo_table savgol_stub True "''moving average''" 3 1 None t'] t
  have e: "{q. q @ ''_vx'' \<in> set (column_names t')}
          = {q. take 4 q \<in> set [''Home'', ''Away'']
                \<and> q @ ''_x'' \<in> set (column_names demo_table)
                \<and> q @ ''_y'' \<in> set (column_names demo_table)}"
    by blast
  with d have "''Home_1'' @ ''_vx'' \<in> set (column_names t')" by blast
  with e t show ?thesis by simp
qed

section \<open>The caller's table\<close>

lemma remove_ref_cases:
  "remove_player_velocities_ref h r =
     (if \<exists>c \<in> set (column_names (h ! r)). is_derived c
      then (length h, h @ [remove_player_velocities (h ! r)])
      else (r, h))"
  by (auto simp: remove_player_velocities_ref_def remove_player_velocities_def Let_def
        filter_empty_conv)

lemma remove_no_derived:
  "\<not> (\<exists>c \<in> set (column_names t). is_derived c) \<Longrightarrow> remove_player_velocities t = t"
  by (auto simp: remove_player_velocities_def Let_def filter_empty_conv)

lemma calc_ref_result:
  assumes "r < length h"
  shows "calc_player_velocities_ref sgf h r sm fk w p m =
     (let b = calc_body sgf (remove_player_velocities (h ! r)) sm fk w p m in
      if \<exists>c \<in> set (column_names (h ! r)). is_derived c
      then ((case fst b of None \<Rightarrow> Inr (length h) | Some e \<Rightarrow> Inl e), h @ [snd b])
      else ((case fst b of None \<Rightarrow> Inr r | Some e \<Rightarrow> Inl e), h[r := snd b]))"
  using assms
  by (simp add: calc_player_velocities_ref_def remove_ref_cases remove_no_derived Let_def
        split_beta nth_append split: option.splits)

lemma calc_value_result:
  "calc_player_velocities sgf team sm fk w p m = Inr t'
   \<longleftrightarrow> calc_body sgf (remove_player_velocities team) sm fk w p m = (None, t')"
  by (auto simp: calc_player_velocities_def split: prod.splits option.splits)

text \<open>
  C3, as stated, fails: a table without derived fields is not copied. After the call the
  caller's object 0 has the three derived columns, and it is the object returned.
\<close>

theorem clean_input_table_is_mutated:
  "filter is_derived (column_names short_table) = []
   \<and> fst (calc_player_velocities_ref savgol_stub [short_table] 0 True ''Savitzky-Golay'' 7 1 None)
       = Inr 0
   \<and> column_names
        (snd (calc_player_velocities_ref savgol_stub [short_table] 0 True ''Savitzky-Golay'' 7 1
                None) ! 0)
       = [''Time [s]'', ''Home_1_x'', ''Home_1_y'', ''Home_1_vx'', ''Home_1_vy'', ''Home_1_speed'']
   \<and> column_names short_table = [''Time [s]'', ''Home_1_x'', ''Home_1_y'']"
  by code_simp

text \<open>
  C3, amended. When the input table has a derived field, the sanitizer makes a new table:
  the estimator works on that one, and every table that existed before the call, the
  caller's included, is unchanged. When the input has no derived field, no table is made:
  the estimator writes into the caller's table, which is the table returned; the other
  tables are unchanged.
\<close>

theorem estimator_copies_only_when_sanitizer_drops:
  assumes r: "r < length h"
    and c: "calc_player_velocities_ref sgf h r sm fk w p m = (res, h')"
  shows "(if \<exists>c \<in> set (column_names (h ! r)). is_derived c
          then length h' = Suc (length h) \<and> take (length h) h' = h \<and> h' ! r = h ! r
               \<and> (\<forall>t'. calc_player_velocities sgf (h ! r) sm fk w p m = Inr t'
                      \<longrightarrow> res = Inr (length h) \<and> h' ! length h = t')
          else length h' = length h \<and> (\<forall>q < length h. q \<noteq> r \<longrightarrow> h' ! q = h ! q)
               \<and> (\<forall>t'. calc_player_velocities sgf (h ! r) sm fk w p m = Inr t'
                      \<longrightarrow> res = Inr r \<and> h' ! r = t'))"
  using c r unfolding calc_ref_result[OF r] calc_value_result
  by (auto simp: Let_def nth_append split: if_splits)

lemma copy_eval:
  "\<exists>c \<in> set (column_names demo_table). is_derived c"
  "fst (calc_player_velocities_ref savgol_stub [demo_table] 0 True ''moving average'' 3 1 None)
   = Inr 1"
  "filter is_derived (column_names demo_table) = [''Home_1_vx'']"
  by code_simp+

theorem estimator_copies_only_when_sanitizer_drops_witness:
  "(0::nat) < length [demo_table]
   \<and> filter is_derived (column_names demo_table) = [''Home_1_vx'']
   \<and> fst (calc_player_velocities_ref savgol_stub [demo_table] 0 True ''moving average'' 3 1 None)
       = Inr 1
   \<and> snd (calc_player_velocities_ref savgol_stub [demo_table] 0 True ''moving average'' 3 1 None)
       ! 0 = demo_table"
proof -
  let ?c = "calc_player_velocities_ref savgol_stub [demo_table] 0 True ''moving average'' 3 1 None"
  have "?c = (fst ?c, snd ?c)" by simp
  from estimator_copies_only_when_sanitizer_drops[OF _ this] copy_eval(1)
  have "snd ?c ! 0 = demo_table" by simp
  with copy_eval show ?thesis by simp
qed

section \<open>The first row\<close>

lemma hd_raw_velocity: "xs \<noteq> [] \<Longrightarrow> dt \<noteq> [] \<Longrightarrow> hd (sdiv (diff xs) dt) = NaN"
  by (cases xs; cases dt) (simp_all add: sdiv_def)

lemma hd_interp_go:
  "0 < k + length xs \<Longrightarrow>
   hd (interp_go None k xs) = (case find (\<lambda>v. v \<noteq> NaN) xs of None \<Rightarrow> NaN | Some v \<Rightarrow> v)"
proof (induction xs arbitrary: k)
  case Nil
  then show ?case by (cases k) simp_all
next
  case (Cons v vs)
  show ?case
  proof (cases "v = NaN")
    case True
    with Cons.IH[of "Suc k"] show ?thesis by simp
  next
    case False
    then show ?thesis by (cases k) simp_all
  qed
qed

lemma hd_gap_repair:
  "v \<noteq> [] \<Longrightarrow>
   hd (gap_repair v) = (case find (\<lambda>a. a \<noteq> NaN) (replace_inf v) of None \<Rightarrow> NaN | Some a \<Rightarrow> a)"
  by (simp add: gap_repair_def interpolate_def hd_interp_go)

lemma speed_facts:
  "fgt (speed_of NaN NaN) (Val m) = False"
  "fgt (speed_of (Val 25) (Val 0)) (Val 12) = True"
  "speed_of NaN NaN = NaN"
  "speed_of (Val 25) (Val 0) = Val 25"
proof -
  have s: "sqrt 625 = 25" by (rule real_sqrt_unique) simp_all
  show "fgt (speed_of NaN NaN) (Val m) = False" "speed_of NaN NaN = NaN"
    by (simp_all add: speed_of_def)
  show "speed_of (Val 25) (Val 0) = Val 25" by (simp add: speed_of_def s)
  then show "fgt (speed_of (Val 25) (Val 0)) (Val 12) = True" by simp
qed

lemma cv_facts:
  "remove_player_velocities constant_velocity_table = constant_velocity_table"
  "player_ids (column_names constant_velocity_table) = [''Home_1'']"
  "second_half_idx constant_velocity_table = None"
  "get_col constant_velocity_table ''Time [s]''
     = Inr [Val 0, Val (1/25), Val (2/25), Val (3/25), Val (4/25),
            Val (1/5), Val (6/25), Val (7/25), Val (8/25), Val (9/25)]"
  "get_col constant_velocity_table ''Home_1_x''
     = Inr [Val 0, Val 1, Val 2, Val 3, Val 4, Val 5, Val 6, Val 7, Val 8, Val 9]"
  "get_col constant_velocity_table ''Home_1_y''
     = Inr [Val 5, Val 5, Val 5, Val 5, Val 5, Val 5, Val 5, Val 5, Val 5, Val 5]"
  "sdiv (diff [Val 0, Val 1, Val 2, Val 3, Val 4, Val 5, Val 6, Val 7, Val 8, Val 9])
        (diff [Val 0, Val (1/25), Val (2/25), Val (3/25), Val (4/25),
               Val (1/5), Val (6/25), Val (7/25), Val (8/25), Val (9/25)])
     = [NaN, Val 25, Val 25, Val 25, Val 25, Val 25, Val 25, Val 25, Val 25, Val 25]"
  "sdiv (diff [Val 5, Val 5, Val 5, Val 5, Val 5, Val 5, Val 5, Val 5, Val 5, Val 5])
        (diff [Val 0, Val (1/25), Val (2/25), Val (3/25), Val (4/25),
               Val (1/5), Val (6/25), Val (7/25), Val (8/25), Val (9/25)])
     = [NaN, Val 0, Val 0, Val 0, Val 0, Val 0, Val 0, Val 0, Val 0, Val 0]"
  "gap_repair [NaN, NaN, NaN, NaN, NaN, NaN, NaN, NaN, NaN, NaN]
     = [NaN, NaN, NaN, NaN, NaN, NaN, NaN, NaN, NaN, NaN]"
  "gap_repair [NaN, Val 25, Val 25, Val 25, Val 25, Val 25, Val 25, Val 25, Val 25, Val 25]
     = [Val 25, Val 25, Val 25, Val 25, Val 25, Val 25, Val 25, Val 25, Val 25, Val 25]"
  "gap_repair [NaN, Val 0, Val 0, Val 0, Val 0, Val 0, Val 0, Val 0, Val 0, Val 0]
     = [Val 0, Val 0, Val 0, Val 0, Val 0, Val 0, Val 0, Val 0, Val 0, Val 0]"
  by code_simp+

lemma cv_reject:
  "reject_outliers (Some 12)
     [NaN, Val 25, Val 25, Val 25, Val 25, Val 25, Val 25, Val 25, Val 25, Val 25]
     [NaN, Val 0, Val 0, Val 0, Val 0, Val 0, Val 0, Val 0, Val 0, Val 0]
   = ([NaN, NaN, NaN, NaN, NaN, NaN, NaN, NaN, NaN, NaN],
      [NaN, NaN, NaN, NaN, NaN, NaN, NaN, NaN, NaN, NaN])"
  by (simp add: reject_outliers_def speed_facts)

lemma cv_run_12:
  "calc_player_velocities sgf constant_velocity_table False fk w p (Some 12)
   = Inr (set_col (set_col (set_col constant_velocity_table
            ''Home_1_vx'' [NaN, NaN, NaN, NaN, NaN, NaN, NaN, NaN, NaN, NaN])
            ''Home_1_vy'' [NaN, NaN, NaN, NaN, NaN, NaN, NaN, NaN, NaN, NaN])
            ''Home_1_speed'' [NaN, NaN, NaN, NaN, NaN, NaN, NaN, NaN, NaN, NaN])"
  by (simp add: calc_player_velocities_def calc_body_def cv_facts player_step_def
        player_velocities_eq smooth_disabled cv_reject speed_facts del: diff.simps)

lemma cv_run_0:
  "calc_player_velocities sgf constant_velocity_table False fk w p (Some 0)
   = Inr (set_col (set_col (set_col constant_velocity_table
            ''Home_1_vx'' [Val 25, Val 25, Val 25, Val 25, Val 25, Val 25, Val 25, Val 25, Val 25, Val 25])
            ''Home_1_vy'' [Val 0, Val 0, Val 0, Val 0, Val 0, Val 0, Val 0, Val 0, Val 0, Val 0])
            ''Home_1_speed'' [Val 25, Val 25, Val 25, Val 25, Val 25, Val 25, Val 25, Val 25, Val 25, Val 25])"
  by (simp add: calc_player_velocities_def calc_body_def cv_facts player_step_def
        player_velocities_eq smooth_disabled reject_outliers_disabled speed_facts
        del: diff.simps)

lemma cv_columns:
  "column_of (Inr (set_col (set_col (set_col constant_velocity_table
            ''Home_1_vx'' a) ''Home_1_vy'' b) ''Home_1_speed'' c)) ''Home_1_vx'' = Some a"
  "column_of (Inr (set_col (set_col (set_col constant_velocity_table
            ''Home_1_vx'' a) ''Home_1_vy'' b) ''Home_1_speed'' c)) ''Home_1_vy'' = Some b"
  "column_of (Inr (set_col (set_col (set_col constant_velocity_table
            ''Home_1_vx'' a) ''Home_1_vy'' b) ''Home_1_speed'' c)) ''Home_1_speed'' = Some c"
  by (simp_all add: column_of_def set_col_def constant_velocity_table_def)

text \<open>
  C2, as stated, fails. In the constant-velocity scenario with \<open>max_speed = 12\<close> every raw
  speed is 25, so every row is rejected and an interior row such as row 1 is missing, not
  25. With outlier rejection disabled the first row of the same table is 25, not missing:
  gap repair fills it.
\<close>

theorem constant_velocity_scenario_rejected:
  "cell (calc_player_velocities savgol_stub constant_velocity_table False ''Savitzky-Golay'' 7 1
           (Some 12)) ''Home_1_vx'' 1 = Some NaN
   \<and> cell (calc_player_velocities savgol_stub constant_velocity_table False ''Savitzky-Golay'' 7 1
           (Some 0)) ''Home_1_vx'' 0 = Some (Val 25)"
  unfolding cv_run_12 cv_run_0
  by (simp add: cell_def set_col_def constant_velocity_table_def)

text \<open>
  C2, amended. The raw finite difference of a non-empty column is missing at the first
  row. With smoothing disabled the estimator returns the gap-repaired components, whose
  first row is the first valid outlier-cleaned velocity of the column, and is missing only
  when there is none. In the constant-velocity scenario with smoothing disabled,
  \<open>max_speed = 12\<close> leaves all of \<open>vx\<close>, \<open>vy\<close> and \<open>speed\<close> missing; with
  \<open>max_speed = 0\<close> all ten rows have \<open>vx \<approx> 25\<close>, \<open>vy \<approx> 0\<close> and \<open>speed \<approx> 25\<close>.
\<close>

theorem first_row_filled_by_gap_repair:
  "(xs \<noteq> [] \<and> ys \<noteq> [] \<and> dt \<noteq> [] \<longrightarrow>
      hd (sdiv (diff xs) dt) = NaN \<and> hd (sdiv (diff ys) dt) = NaN
    \<and> player_velocities sgf idx dt shi False fk w p m xs ys
        = Inr (gap_repair (fst (reject_outliers m (sdiv (diff xs) dt) (sdiv (diff ys) dt))),
               gap_repair (snd (reject_outliers m (sdiv (diff xs) dt) (sdiv (diff ys) dt))))
    \<and> hd (gap_repair (fst (reject_outliers m (sdiv (diff xs) dt) (sdiv (diff ys) dt))))
        = (case find (\<lambda>v. v \<noteq> NaN)
                  (replace_inf (fst (reject_outliers m (sdiv (diff xs) dt) (sdiv (diff ys) dt))))
           of None \<Rightarrow> NaN | Some v \<Rightarrow> v)
    \<and> hd (gap_repair (snd (reject_outliers m (sdiv (diff xs) dt) (sdiv (diff ys) dt))))
        = (case find (\<lambda>v. v \<noteq> NaN)
                  (replace_inf (snd (reject_outliers m (sdiv (diff xs) dt) (sdiv (diff ys) dt))))
           of None \<Rightarrow> NaN | Some v \<Rightarrow> v))
   \<and> column_of (calc_player_velocities sgf constant_velocity_table False fk w p (Some 12))
        ''Home_1_vx'' = Some [NaN, NaN, NaN, NaN, NaN, NaN, NaN, NaN, NaN, NaN]
   \<and> column_of (calc_player_velocities sgf constant_velocity_table False fk w p (Some 12))
        ''Home_1_vy'' = Some [NaN, NaN, NaN, NaN, NaN, NaN, NaN, NaN, NaN, NaN]
   \<and> column_of (calc_player_velocities sgf constant_velocity_table False fk w p (Some 12))
        ''Home_1_speed'' = Some [NaN, NaN, NaN, NaN, NaN, NaN, NaN, NaN, NaN, NaN]
   \<and> (case column_of (calc_player_velocities sgf constant_velocity_table False fk w p (Some 0))
              ''Home_1_vx''
       of None \<Rightarrow> False | Some c \<Rightarrow> length c = 10 \<and> list_all (\<lambda>v. approx v 25) c)
   \<and> (case column_of (calc_player_velocities sgf constant_velocity_table False fk w p (Some 0))
              ''Home_1_vy''
       of None \<Rightarrow> False | Some c \<Rightarrow> length c = 10 \<and> list_all (\<lambda>v. approx v 0) c)
   \<and> (case column_of (calc_player_velocities sgf constant_velocity_table False fk w p (Some 0))
              ''Home_1_speed''
       of None \<Rightarrow> False | Some c \<Rightarrow> length c = 10 \<and> list_all (\<lambda>v. approx v 25) c)"
proof -
  have g: "hd (sdiv (diff xs) dt) = NaN \<and> hd (sdiv (diff ys) dt) = NaN
    \<and> player_velocities sgf idx dt shi False fk w p m xs ys
        = Inr (gap_repair (fst (reject_outliers m (sdiv (diff xs) dt) (sdiv (diff ys) dt))),
               gap_repair (snd (reject_outliers m (sdiv (diff xs) dt) (sdiv (diff ys) dt))))
    \<and> hd (gap_repair (fst (reject_outliers m (sdiv (diff xs) dt) (sdiv (diff ys) dt))))
        = (case find (\<lambda>v. v \<noteq> NaN)
                  (replace_inf (fst (reject_outliers m (sdiv (diff xs) dt) (sdiv (diff ys) dt))))
           of None \<Rightarrow> NaN | Some v \<Rightarrow> v)
    \<and> hd (gap_repair (snd (reject_outliers m (sdiv (diff xs) dt) (sdiv (diff ys) dt))))
        = (case find (\<lambda>v. v \<noteq> NaN)
                  (replace_inf (snd (reject_outliers m (sdiv (diff xs) dt) (sdiv (diff ys) dt))))
           of None \<Rightarrow> NaN | Some v \<Rightarrow> v)"
    if n: "xs \<noteq> [] \<and> ys \<noteq> [] \<and> dt \<noteq> []"
  proof -
    let ?cx = "fst (reject_outliers m (sdiv (diff xs) dt) (sdiv (diff ys) dt))"
    let ?cy = "snd (reject_outliers m (sdiv (diff xs) dt) (sdiv (diff ys) dt))"
    from n have "0 < length ?cx" "0 < length ?cy" by simp_all
    then have ne: "?cx \<noteq> []" "?cy \<noteq> []" by (simp_all only: length_greater_0_conv not_False_eq_True)
    show ?thesis
      using n hd_gap_repair[OF ne(1)] hd_gap_repair[OF ne(2)]
      by (simp add: hd_raw_velocity player_velocities_eq smooth_disabled)
  qed
  show ?thesis
    using g by (simp add: cv_run_12 cv_run_0 cv_columns approx_def)
qed

lemma first_row_eval:
  "player_velocities savgol_stub [0, 1, 2] [NaN, Val 1, Val 1] None False ''Savitzky-Golay'' 7 1
     None [Val 0, Val 2, Val 4] [Val 0, Val 0, Val 0]
   = Inr ([Val 2, Val 2, Val 2], [Val 0, Val 0, Val 0])"
  by code_simp

theorem first_row_filled_by_gap_repair_witness:
  "[Val 0, Val 2, Val 4] \<noteq> [] \<and> [Val 0, Val 0, Val 0] \<noteq> [] \<and> [NaN, Val 1, Val 1] \<noteq> []
   \<and> hd (sdiv (diff [Val 0, Val 2, Val 4]) [NaN, Val 1, Val 1]) = NaN
   \<and> player_velocities savgol_stub [0, 1, 2] [NaN, Val 1, Val 1] None False ''Savitzky-Golay'' 7 1
        None [Val 0, Val 2, Val 4] [Val 0, Val 0, Val 0]
      = Inr ([Val 2, Val 2, Val 2], [Val 0, Val 0, Val 0])
   \<and> hd [Val 2, Val 2, Val 2] = Val 2"
proof -
  from first_row_filled_by_gap_repair
         [of "[Val 0, Val 2, Val 4]" "[Val 0, Val 0, Val 0]" "[NaN, Val 1, Val 1]"]
  have "hd (sdiv (diff [Val 0, Val 2, Val 4]) [NaN, Val 1, Val 1]) = NaN"
    by simp
  with first_row_eval show ?thesis by simp
qed

end
